theory Spec2Isabelle
  imports Main "HOL-Library.Word"
begin

section \<open>Strings\<close>

text \<open>
  A JavaScript string is a sequence of UTF-16 code units. The regular expression of the
  filename sanitizer has no \<open>u\<close> flag and \<open>String.prototype.trim\<close> works on code units, so
  a string is modelled as a list of 16-bit words. \<open>js\<close> embeds an ASCII literal.
\<close>

type_synonym jschar = "16 word"
type_synonym jsstring = "jschar list"

definition js :: "string \<Rightarrow> jsstring" where
  "js s = map of_char s"

text \<open>
  The code units matched by \<open>\s\<close> and removed by \<open>trim\<close>: the WhiteSpace and
  LineTerminator productions of ECMAScript (TAB, LF, VT, FF, CR, SP, NBSP, U+1680,
  U+2000..U+200A, U+2028, U+2029, U+202F, U+205F, U+3000, U+FEFF).
\<close>

definition isWhiteSpace :: "jschar \<Rightarrow> bool" where
  "isWhiteSpace c \<longleftrightarrow>
     c = 0x09 \<or> c = 0x0A \<or> c = 0x0B \<or> c = 0x0C \<or> c = 0x0D \<or> c = 0x20 \<or> c = 0xA0
     \<or> c = 0x1680 \<or> (0x2000 \<le> c \<and> c \<le> 0x200A) \<or> c = 0x2028 \<or> c = 0x2029
     \<or> c = 0x202F \<or> c = 0x205F \<or> c = 0x3000 \<or> c = 0xFEFF"

text \<open>\<open>s.trim()\<close>: white space is dropped at both ends.\<close>

definition trim :: "jsstring \<Rightarrow> jsstring" where
  "trim s = rev (dropWhile isWhiteSpace (rev (dropWhile isWhiteSpace s)))"

text \<open>
  Decimal rendering of a non-negative integer, as a template literal \<open>${i}\<close> and
  \<open>String(n)\<close> produce it for the integers below \<open>10^21\<close>.
\<close>

fun natToString :: "nat \<Rightarrow> jsstring" where
  "natToString n =
     (if n < 10 then [of_nat (48 + n)]
      else natToString (n div 10) @ [of_nat (48 + n mod 10)])"

declare natToString.simps [simp del]

definition intToString :: "int \<Rightarrow> jsstring" where
  "intToString n = (if n < 0 then 0x2D # natToString (nat (- n)) else natToString (nat n))"

section \<open>Spreadsheet rows\<close>

text \<open>
  \<open>ExcelRow\<close> of \<open>types.ts\<close>: an index signature from column names to
  \<open>string | number | boolean\<close>. A column that a row does not have reads as
  \<open>undefined\<close>, which is \<open>None\<close> here. The row objects are built by the spreadsheet
  library; a row is taken as the map of its cells, which leaves out a configured column
  that is named like a property every object inherits. Numeric cells are modelled at the
  integers of magnitude below \<open>10^21\<close>, whose \<open>String\<close> is the decimal numeral; the
  exponent notation of larger numbers and the fractions are not modelled. The only use the
  pipeline makes of a number is its truthiness and its rendering.
\<close>

datatype cell = CStr jsstring | CNum int | CBool bool

type_synonym ExcelRow = "jsstring \<rightharpoonup> cell"

fun truthy :: "cell \<Rightarrow> bool" where
  "truthy (CStr s) = (s \<noteq> [])"
| "truthy (CNum n) = (n \<noteq> 0)"
| "truthy (CBool b) = b"

fun cellToString :: "cell \<Rightarrow> jsstring" where
  "cellToString (CStr s) = s"
| "cellToString (CNum n) = intToString n"
| "cellToString (CBool b) = (if b then js ''true'' else js ''false'')"

text \<open>\<open>String(v || d)\<close> for a cell lookup \<open>v\<close> and a string default \<open>d\<close>.\<close>

definition stringOr :: "cell option \<Rightarrow> jsstring \<Rightarrow> jsstring" where
  "stringOr v d = (case v of None \<Rightarrow> d | Some c \<Rightarrow> if truthy c then cellToString c else d)"

section \<open>Prompt composition and filename sanitization\<close>

text \<open>
  Lines 90-92 of \<open>BulkGenerator.tsx\<close>:
  \<^verbatim>\<open>baselinePrompt ? `${baselinePrompt}. ${productPrompt}` : productPrompt\<close>
\<close>

definition fullPrompt :: "jsstring \<Rightarrow> jsstring \<Rightarrow> jsstring" where
  "fullPrompt baselinePrompt productPrompt =
     (if baselinePrompt \<noteq> [] then baselinePrompt @ js ''. '' @ productPrompt
      else productPrompt)"

text \<open>
  The character class \<open>[a-z0-9_\-\s]\<close> under the flag \<open>i\<close>. Without the flag \<open>u\<close>
  a code unit above 127 is never folded onto an ASCII letter, so the letters of the class
  are the 52 ASCII letters.
\<close>

definition inClass :: "jschar \<Rightarrow> bool" where
  "inClass c \<longleftrightarrow>
     (0x61 \<le> c \<and> c \<le> 0x7A) \<or> (0x41 \<le> c \<and> c \<le> 0x5A) \<or> (0x30 \<le> c \<and> c \<le> 0x39)
     \<or> c = 0x5F \<or> c = 0x2D \<or> isWhiteSpace c"

text \<open>
  \<open>s.replace(re, r)\<close> for a global pattern \<open>re\<close> that matches single code units: a
  left-to-right scan that substitutes \<open>r\<close> for every match.
\<close>

fun replaceAll :: "(jschar \<Rightarrow> bool) \<Rightarrow> jsstring \<Rightarrow> jsstring \<Rightarrow> jsstring" where
  "replaceAll m r [] = []"
| "replaceAll m r (c # cs) = (if m c then r @ replaceAll m r cs else c # replaceAll m r cs)"

text \<open>
  Line 100, in two steps:
  \<^verbatim>\<open>productName.replace(/[^a-z0-9_\-\s]/gi, '_').trim() || `image-${i}`\<close>
\<close>

definition sanitize :: "jsstring \<Rightarrow> jsstring" where
  "sanitize productName = trim (replaceAll (\<lambda>c. \<not> inClass c) (js ''_'') productName)"

definition imageIndexName :: "nat \<Rightarrow> jsstring" where
  "imageIndexName i = js ''image-'' @ natToString i"

definition safeFileName :: "nat \<Rightarrow> jsstring \<Rightarrow> jsstring" where
  "safeFileName i productName =
     (if sanitize productName \<noteq> [] then sanitize productName else imageIndexName i)"

text \<open>
  The sanitizer as the specification words it: every character outside letters, digits,
  underscore, hyphen and the space character U+0020 becomes an underscore, the result is
  trimmed, and \<open>image-<index>\<close> stands in for an empty result.
\<close>

definition specClass :: "jschar \<Rightarrow> bool" where
  "specClass c \<longleftrightarrow>
     (0x61 \<le> c \<and> c \<le> 0x7A) \<or> (0x41 \<le> c \<and> c \<le> 0x5A) \<or> (0x30 \<le> c \<and> c \<le> 0x39)
     \<or> c = 0x5F \<or> c = 0x2D \<or> c = 0x20"

definition safeFileName_spec :: "nat \<Rightarrow> jsstring \<Rightarrow> jsstring" where
  "safeFileName_spec i productName =
     (let t = trim (map (\<lambda>c. if specClass c then c else 0x5F) productName)
      in if t = [] then imageIndexName i else t)"

section \<open>Remote image generation client\<close>

text \<open>
  The response of \<open>ai.models.generateContent\<close>, with every field the extraction reads.
  All of them are optional in the SDK's types; an absent field is \<open>None\<close>.
\<close>

record Blob =
  data :: "jsstring option"
  mimeType :: "jsstring option"

record Part =
  inlineData :: "Blob option"
  textPart :: "jsstring option"

record Content =
  parts :: "Part list option"

record Candidate =
  content :: "Content option"

record GenerateContentResponse =
  candidates :: "Candidate list option"

text \<open>\<open>v || d\<close> for an optional string: absent and empty are both falsy.\<close>

definition orDefault :: "jsstring option \<Rightarrow> jsstring \<Rightarrow> jsstring" where
  "orDefault v d = (case v of None \<Rightarrow> d | Some s \<Rightarrow> if s \<noteq> [] then s else d)"

text \<open>
  The loop of \<open>extractImageFromResponse\<close> (lines 35-41 of the service): the first part
  with a truthy \<open>inlineData\<close> and a truthy \<open>inlineData.data\<close> decides.
\<close>

fun scanParts :: "Part list \<Rightarrow> jsstring option" where
  "scanParts [] = None"
| "scanParts (part # rest) =
     (case inlineData part of
        None \<Rightarrow> scanParts rest
      | Some blob \<Rightarrow>
          (case data blob of
             None \<Rightarrow> scanParts rest
           | Some d \<Rightarrow>
               if d \<noteq> [] then
                 Some (js ''data:'' @ orDefault (mimeType blob) (js ''image/png'')
                       @ js '';base64,'' @ d)
               else scanParts rest))"

definition extractImageFromResponse :: "GenerateContentResponse \<Rightarrow> jsstring option" where
  "extractImageFromResponse response =
     (case candidates response of
        None \<Rightarrow> None
      | Some [] \<Rightarrow> None
      | Some (first # _) \<Rightarrow>
          (case content first of
             None \<Rightarrow> None
           | Some c \<Rightarrow> (case parts c of None \<Rightarrow> None | Some ps \<Rightarrow> scanParts ps)))"

text \<open>
  What \<open>generateImageWithGemini\<close> throws: the error it raises itself when no image was
  extracted, or the rejection of the transport call, rethrown by the \<open>catch\<close> block. A
  transport rejection is carried by its rendering \<open>String(err)\<close>.
\<close>

datatype js_error = NoImageGenerated | TransportFailure jsstring

fun errorToString :: "js_error \<Rightarrow> jsstring" where
  "errorToString NoImageGenerated =
     js ''Error: No image generated. The model might have returned only text.''"
| "errorToString (TransportFailure s) = s"

text \<open>
  \<open>generateImageWithGemini\<close>, with the transport call \<open>ai.models.generateContent\<close> as a
  parameter: it resolves to a response (\<open>Inr\<close>) or rejects (\<open>Inl\<close>).
\<close>

definition generateImageWithGemini ::
    "(jsstring \<Rightarrow> jsstring + GenerateContentResponse) \<Rightarrow> jsstring \<Rightarrow> js_error + jsstring" where
  "generateImageWithGemini generateContent p =
     (case generateContent p of
        Inl e \<Rightarrow> Inl (TransportFailure e)
      | Inr response \<Rightarrow>
          (case extractImageFromResponse response of
             None \<Rightarrow> Inl NoImageGenerated
           | Some imageUrl \<Rightarrow> Inr imageUrl))"

text \<open>The claim's reading of the extraction: the parts of the first candidate.\<close>

definition firstCandidateParts :: "GenerateContentResponse \<Rightarrow> Part list" where
  "firstCandidateParts response =
     (case candidates response of
        Some (first # _) \<Rightarrow>
          (case content first of
             Some c \<Rightarrow> (case parts c of Some ps \<Rightarrow> ps | None \<Rightarrow> [])
           | None \<Rightarrow> [])
      | _ \<Rightarrow> [])"

definition carriesImage :: "Part \<Rightarrow> bool" where
  "carriesImage part =
     (case inlineData part of
        None \<Rightarrow> False
      | Some blob \<Rightarrow> (case data blob of None \<Rightarrow> False | Some d \<Rightarrow> d \<noteq> []))"

definition dataUrl :: "Part \<Rightarrow> jsstring" where
  "dataUrl part =
     (case inlineData part of
        None \<Rightarrow> []
      | Some blob \<Rightarrow>
          js ''data:'' @ (case mimeType blob of
                            None \<Rightarrow> js ''image/png''
                          | Some m \<Rightarrow> if m = [] then js ''image/png'' else m)
          @ js '';base64,'' @ (case data blob of None \<Rightarrow> [] | Some d \<Rightarrow> d))"

section \<open>Bulk generation pipeline\<close>

text \<open>
  The records of \<open>types.ts\<close>. The fields \<open>total\<close> and \<open>id\<close> are \<open>total_rows\<close> and
  \<open>image_id\<close> here, since the short names are taken.
\<close>

record ProcessingStatus =
  total_rows :: nat
  completed :: nat
  isProcessing :: bool
  currentAction :: "jsstring option"

record GeneratedImage =
  image_id :: jsstring
  url :: jsstring
  prompt :: jsstring
  fileName :: jsstring
  originalName :: "jsstring option"
  timestamp :: nat

text \<open>
  The state of the \<open>BulkGenerator\<close> component that the pipeline reads and writes.
  \<open>requests\<close> is not a field of the component: it records, in call order, the prompts
  passed to \<open>generateImageWithGemini\<close>, so that the calls the pipeline issues are
  observable.
\<close>

record BulkGenerator =
  excelData :: "ExcelRow list"
  promptColumn :: jsstring
  filenameColumn :: jsstring
  baselinePrompt :: jsstring
  status :: ProcessingStatus
  results :: "GeneratedImage list"
  logs :: "jsstring list"
  abortRef :: bool
  requests :: "jsstring list"

text \<open>
  What the outside world does while row \<open>i\<close> awaits its generation call: the answer of
  the transport, the clicks on the stop button (the call is the only point where the loop
  yields, so a click lands there), and the values of \<open>crypto.randomUUID()\<close> and
  \<open>Date.now()\<close> read afterwards.
\<close>

record RowEvents =
  generateContent :: "jsstring \<Rightarrow> jsstring + GenerateContentResponse"
  stopClicks :: nat
  randomUUID :: jsstring
  dateNow :: nat

type_synonym environment = "nat \<Rightarrow> RowEvents"

text \<open>Line 24: \<^verbatim>\<open>setLogs(prev => [msg, ...prev].slice(0, 50))\<close>\<close>

definition addLog :: "jsstring \<Rightarrow> BulkGenerator \<Rightarrow> BulkGenerator" where
  "addLog msg s = s\<lparr>logs := take 50 (msg # logs s)\<rparr>"

text \<open>Lines 58-63.\<close>

definition stopGeneration :: "BulkGenerator \<Rightarrow> BulkGenerator" where
  "stopGeneration s =
     (if isProcessing (status s) then
        addLog (js ''Stopping generation after current item finishes...'') (s\<lparr>abortRef := True\<rparr>)
      else s)"

text \<open>\<^verbatim>\<open>setStatus(prev => ({ ...prev, completed: prev.completed + 1 }))\<close>\<close>

definition incCompleted :: "BulkGenerator \<Rightarrow> BulkGenerator" where
  "incCompleted s = s\<lparr>status := (status s)\<lparr>completed := completed (status s) + 1\<rparr>\<rparr>"

text \<open>The body of the loop for row \<open>i\<close>, lines 79-116.\<close>

definition processRow :: "RowEvents \<Rightarrow> nat \<Rightarrow> ExcelRow \<Rightarrow> BulkGenerator \<Rightarrow> BulkGenerator" where
  "processRow ev i row s =
     (let productPrompt = stringOr (row (promptColumn s)) [];
          productName = stringOr (row (filenameColumn s)) (imageIndexName i)
      in
      if trim productPrompt = [] then
        incCompleted
          (addLog (js ''Skipping row '' @ natToString (i + 1) @ js '': Empty prompt'') s)
      else
        let prompt' = fullPrompt (baselinePrompt s) productPrompt;
            s1 = s\<lparr>status := (status s)\<lparr>currentAction := Some (js ''Generating: '' @ productName)\<rparr>\<rparr>;
            s2 = s1\<lparr>requests := requests s1 @ [prompt']\<rparr>;
            s3 = (stopGeneration ^^ stopClicks ev) s2;
            s4 = (case generateImageWithGemini (generateContent ev) prompt' of
                    Inr imageUrl \<Rightarrow>
                      addLog (js ''Success: '' @ productName)
                        (s3\<lparr>results := results s3 @
                            [\<lparr>image_id = randomUUID ev, url = imageUrl, prompt = prompt',
                              fileName = safeFileName i productName,
                              originalName = Some productName, timestamp = dateNow ev\<rparr>]\<rparr>)
                  | Inl err \<Rightarrow>
                      addLog (js ''Failed row '' @ natToString (i + 1) @ js '' ('' @ productName
                              @ js ''): '' @ errorToString err) s3)
        in incCompleted s4)"

text \<open>
  The \<open>for\<close> loop, lines 73-117, from row \<open>i\<close> on: the flag is read at the top of each
  iteration, and a set flag logs and breaks.
\<close>

fun loop :: "environment \<Rightarrow> nat \<Rightarrow> ExcelRow list \<Rightarrow> BulkGenerator \<Rightarrow> BulkGenerator" where
  "loop env i [] s = s"
| "loop env i (row # rows) s =
     (if abortRef s then addLog (js ''Process stopped by user.'') s
      else loop env (Suc i) rows (processRow (env i) i row s))"

text \<open>Lines 68-71: the state when the loop is entered.\<close>

definition startState :: "BulkGenerator \<Rightarrow> BulkGenerator" where
  "startState s =
     addLog (js ''Starting bulk generation...'')
       (s\<lparr>abortRef := False,
          status := \<lparr>total_rows = length (excelData s), completed = 0, isProcessing = True,
                     currentAction = None\<rparr>,
          results := []\<rparr>)"

text \<open>
  Lines 119-120. The argument of \<open>setStatus\<close> on line 119 is an updater function, and the
  test \<open>abortRef.current\<close> is inside it. \<open>finalStatus\<close> is that updater, as a function of
  the value of the flag that the test reads and of \<open>prev\<close>.
\<close>

definition finalStatus :: "bool \<Rightarrow> ProcessingStatus \<Rightarrow> ProcessingStatus" where
  "finalStatus flag prev =
     prev\<lparr>isProcessing := False,
          currentAction := Some (if flag then js ''Stopped'' else js ''Completed!'')\<rparr>"

text \<open>
  React does not call an updater function when it is passed to the setter: it queues it
  and calls it when it renders the component the next time. In a root with batched
  updates (every root made by \<open>createRoot\<close>) the render comes after the synchronous code
  of the handler, and the handler does not yield between line 116 (or 85, or 75) and its
  end; the queue already holds the update of that line, so the new state is not computed
  ahead either. Line 120 therefore resets the flag before the updater of line 119 runs,
  and the updater reads the flag as line 120 left it. The other updaters (lines 85, 94,
  116, and those of \<open>setResults\<close> and \<open>setLogs\<close>) read nothing but \<open>prev\<close>, so for them
  the order of the calls is the order of their effects, and they are modelled in program
  order.
\<close>

definition finish :: "BulkGenerator \<Rightarrow> BulkGenerator" where
  "finish s =
     (let s' = s\<lparr>abortRef := False\<rparr>
      in s'\<lparr>status := finalStatus (abortRef s') (status s')\<rparr>)"

text \<open>
  Lines 119-120 as the specification reads them, in program order: the action is chosen
  by the flag as the loop left it, and the flag is reset afterwards. This is also what a
  legacy root does, which renders inside a setter that is called outside an event handler.
\<close>

definition finishInOrder :: "BulkGenerator \<Rightarrow> BulkGenerator" where
  "finishInOrder s = (s\<lparr>status := finalStatus (abortRef s) (status s)\<rparr>)\<lparr>abortRef := False\<rparr>"

definition handleStartBulkGeneration :: "environment \<Rightarrow> BulkGenerator \<Rightarrow> BulkGenerator" where
  "handleStartBulkGeneration env s =
     (if excelData s = [] \<or> promptColumn s = [] \<or> filenameColumn s = [] then s
      else finish (loop env 0 (excelData s) (startState s)))"

text \<open>
  The states at the end of each iteration that ran its body, in order: the observable
  history of a run between \<open>startState\<close> and \<open>finish\<close>.
\<close>

fun loopStates :: "environment \<Rightarrow> nat \<Rightarrow> ExcelRow list \<Rightarrow> BulkGenerator \<Rightarrow> BulkGenerator list" where
  "loopStates env i [] s = []"
| "loopStates env i (row # rows) s =
     (if abortRef s then []
      else processRow (env i) i row s # loopStates env (Suc i) rows (processRow (env i) i row s))"

definition completedHistory :: "environment \<Rightarrow> BulkGenerator \<Rightarrow> nat list" where
  "completedHistory env s =
     map (\<lambda>t. completed (status t)) (loopStates env 0 (excelData s) (startState s))"

text \<open>The test of line 83, \<^verbatim>\<open>!productPrompt.trim()\<close>, on the prompt cell of a row.\<close>

definition blankPrompt :: "ExcelRow \<Rightarrow> BulkGenerator \<Rightarrow> bool" where
  "blankPrompt row s \<longleftrightarrow> trim (stringOr (row (promptColumn s)) []) = []"

text \<open>The same environment with no click on the stop button.\<close>

definition withoutStops :: "environment \<Rightarrow> environment" where
  "withoutStops env = (\<lambda>j. (env j)\<lparr>stopClicks := 0\<rparr>)"

text \<open>
  What a run has produced in a state: the results, the calls issued and the status. The
  log and the stop flag are left out.
\<close>

definition observable ::
    "BulkGenerator \<Rightarrow> GeneratedImage list \<times> jsstring list \<times> ProcessingStatus" where
  "observable s = (results s, requests s, status s)"

text \<open>The effective prompt of a row, lines 80 and 90-92.\<close>

definition rowPrompt :: "BulkGenerator \<Rightarrow> ExcelRow \<Rightarrow> jsstring" where
  "rowPrompt s row = fullPrompt (baselinePrompt s) (stringOr (row (promptColumn s)) [])"

text \<open>
  The number of rows whose body a run executes, and the states of the run just before and
  just after the body of row \<open>k\<close>; the state before row \<open>rowsReached\<close> is the one in
  which the loop ends.
\<close>

definition rowsReached :: "environment \<Rightarrow> BulkGenerator \<Rightarrow> nat" where
  "rowsReached env s = length (loopStates env 0 (excelData s) (startState s))"

definition stateBefore :: "environment \<Rightarrow> BulkGenerator \<Rightarrow> nat \<Rightarrow> BulkGenerator" where
  "stateBefore env s k = (startState s # loopStates env 0 (excelData s) (startState s)) ! k"

definition stateAfter :: "environment \<Rightarrow> BulkGenerator \<Rightarrow> nat \<Rightarrow> BulkGenerator" where
  "stateAfter env s k = loopStates env 0 (excelData s) (startState s) ! k"

section \<open>Archive export\<close>

text \<open>
  \<open>usedNames\<close> is the object literal \<open>{}\<close> used as a dictionary (line 133). A read
  \<open>usedNames[k]\<close> finds an own property first and then the properties every object
  literal inherits from \<open>Object.prototype\<close>; so a value read from it is \<open>undefined\<close>, a
  number written by the loop, an inherited built-in function, or (for \<open>__proto__\<close>) the
  prototype object.
\<close>

datatype jsval = Undefined | Number nat | NaN | BuiltinFunction jsstring | ObjectPrototype

text \<open>The function-valued properties of \<open>Object.prototype\<close>, with the functions' names.\<close>

definition objectPrototypeFunctions :: "(jsstring \<times> jsstring) list" where
  "objectPrototypeFunctions =
     [(js ''constructor'', js ''Object''),
      (js ''hasOwnProperty'', js ''hasOwnProperty''),
      (js ''isPrototypeOf'', js ''isPrototypeOf''),
      (js ''propertyIsEnumerable'', js ''propertyIsEnumerable''),
      (js ''toLocaleString'', js ''toLocaleString''),
      (js ''toString'', js ''toString''),
      (js ''valueOf'', js ''valueOf''),
      (js ''__defineGetter__'', js ''__defineGetter__''),
      (js ''__defineSetter__'', js ''__defineSetter__''),
      (js ''__lookupGetter__'', js ''__lookupGetter__''),
      (js ''__lookupSetter__'', js ''__lookupSetter__'')]"

text \<open>
  \<open>usedNames[k]\<close> as a read. \<open>__proto__\<close> is an accessor of the prototype: it never
  becomes an own property by assignment and always reads as the prototype object.
\<close>

definition getProp :: "(jsstring \<rightharpoonup> jsval) \<Rightarrow> jsstring \<Rightarrow> jsval" where
  "getProp own k =
     (if k = js ''__proto__'' then ObjectPrototype
      else case own k of
             Some v \<Rightarrow> v
           | None \<Rightarrow> (case map_of objectPrototypeFunctions k of
                        Some f \<Rightarrow> BuiltinFunction f
                      | None \<Rightarrow> Undefined))"

text \<open>
  \<open>usedNames[k] = v\<close> for a number \<open>v\<close>: an own property is created or overwritten, except
  that the setter of \<open>__proto__\<close> ignores a value that is not an object.
\<close>

definition setProp :: "(jsstring \<rightharpoonup> jsval) \<Rightarrow> jsstring \<Rightarrow> jsval \<Rightarrow> (jsstring \<rightharpoonup> jsval)" where
  "setProp own k v = (if k = js ''__proto__'' then own else own(k \<mapsto> v))"

fun toBoolean :: "jsval \<Rightarrow> bool" where
  "toBoolean Undefined = False"
| "toBoolean (Number n) = (n \<noteq> 0)"
| "toBoolean NaN = False"
| "toBoolean (BuiltinFunction f) = True"
| "toBoolean ObjectPrototype = True"

text \<open>The value that \<open>++\<close> stores: the old value converted to a number, plus one.\<close>

fun increment :: "jsval \<Rightarrow> jsval" where
  "increment (Number n) = Number (n + 1)"
| "increment Undefined = NaN"
| "increment NaN = NaN"
| "increment (BuiltinFunction f) = NaN"
| "increment ObjectPrototype = NaN"

text \<open>The rendering of a value inside a template literal.\<close>

fun valToString :: "jsval \<Rightarrow> jsstring" where
  "valToString Undefined = js ''undefined''"
| "valToString (Number n) = natToString n"
| "valToString NaN = js ''NaN''"
| "valToString (BuiltinFunction f) = js ''function '' @ f @ js ''() { [native code] }''"
| "valToString ObjectPrototype = js ''[object Object]''"

text \<open>\<open>s.split(sep)\<close> for a separator of one code unit, and \<open>xs[n]\<close> on the result.\<close>

fun split :: "jschar \<Rightarrow> jsstring \<Rightarrow> jsstring list" where
  "split sep [] = [[]]"
| "split sep (c # cs) =
     (if c = sep then [] # split sep cs
      else (case split sep cs of [] \<Rightarrow> [[c]] | p # ps \<Rightarrow> (c # p) # ps))"

definition at :: "'a list \<Rightarrow> nat \<Rightarrow> 'a option" where
  "at xs n = (if n < length xs then Some (xs ! n) else None)"

text \<open>
  The body of \<open>results.forEach\<close>, lines 135-149, on the pair of \<open>usedNames\<close> and the
  calls \<open>folder.file(name, base64Data)\<close> made so far.
\<close>

definition addToZip ::
    "(jsstring \<rightharpoonup> jsval) \<times> (jsstring \<times> jsstring option) list \<Rightarrow> GeneratedImage
     \<Rightarrow> (jsstring \<rightharpoonup> jsval) \<times> (jsstring \<times> jsstring option) list" where
  "addToZip acc img =
     (let usedNames = fst acc; files = snd acc;
          base64Data = at (split 0x2C (url img)) 1
      in
      if toBoolean (getProp usedNames (fileName img)) then
        let usedNames' = setProp usedNames (fileName img) (increment (getProp usedNames (fileName img)));
            fileName' = fileName img @ js ''_'' @ valToString (getProp usedNames' (fileName img))
        in (usedNames', files @ [(fileName' @ js ''.png'', base64Data)])
      else
        (setProp usedNames (fileName img) (Number 1),
         files @ [(fileName img @ js ''.png'', base64Data)]))"

text \<open>
  \<open>downloadAllAsZip\<close> up to the archive's content: nothing for an empty result list,
  otherwise the files added to the folder, in order.
\<close>

definition downloadAllAsZip :: "GeneratedImage list \<Rightarrow> (jsstring \<times> jsstring option) list option" where
  "downloadAllAsZip rs =
     (if rs = [] then None else Some (snd (foldl addToZip (Map.empty, []) rs)))"

text \<open>
  The collision policy as the specification words it: a name that has not occurred before
  is kept, and the Nth occurrence of a name, for N from 2 on, gets the suffix \<open>_N\<close>;
  occurrences are counted on the original names, in processing order.
\<close>

definition occurrenceName :: "jsstring list \<Rightarrow> jsstring \<Rightarrow> jsstring" where
  "occurrenceName earlier n =
     (if count_list earlier n = 0 then n
      else n @ js ''_'' @ natToString (count_list earlier n + 1))"

fun occurrenceNames :: "jsstring list \<Rightarrow> jsstring list \<Rightarrow> jsstring list" where
  "occurrenceNames earlier [] = []"
| "occurrenceNames earlier (n # ns) =
     (occurrenceName earlier n @ js ''.png'') # occurrenceNames (earlier @ [n]) ns"

text \<open>The names that every object literal inherits from \<open>Object.prototype\<close>.\<close>

definition inheritedName :: "jsstring \<Rightarrow> bool" where
  "inheritedName k \<longleftrightarrow> k = js ''__proto__'' \<or> k \<in> fst ` set objectPrototypeFunctions"

text \<open>\<open>usedNames\<close> holds, as own properties, the occurrence counts of the names seen so far.\<close>

definition counts :: "jsstring list \<Rightarrow> (jsstring \<rightharpoonup> jsval) \<Rightarrow> bool" where
  "counts earlier usedNames \<longleftrightarrow>
     (\<forall>k. usedNames k =
        (if count_list earlier k = 0 then None else Some (Number (count_list earlier k))))"

section \<open>Example inputs\<close>

text \<open>
  A sheet with the columns \<open>sku\<close> and \<open>desc\<close>, a component state that selects them, a
  transport that answers every call with a text part followed by an image part, and
  environments with and without a click on the stop button.
\<close>

definition exampleRow :: "string \<Rightarrow> string \<Rightarrow> ExcelRow" where
  "exampleRow sku desc = [js ''sku'' \<mapsto> CStr (js sku), js ''desc'' \<mapsto> CStr (js desc)]"

definition exampleState :: "ExcelRow list \<Rightarrow> BulkGenerator" where
  "exampleState rows =
     \<lparr>excelData = rows, promptColumn = js ''desc'', filenameColumn = js ''sku'',
      baselinePrompt = js ''studio lighting'',
      status = \<lparr>total_rows = 0, completed = 0, isProcessing = False, currentAction = None\<rparr>,
      results = [], logs = [], abortRef = False, requests = []\<rparr>"

definition imageResponse :: GenerateContentResponse where
  "imageResponse =
     \<lparr>candidates = Some [\<lparr>content = Some \<lparr>parts = Some
        [\<lparr>inlineData = None, textPart = Some (js ''here it is'')\<rparr>,
         \<lparr>inlineData = Some \<lparr>data = Some (js ''AAAA''), mimeType = None\<rparr>, textPart = None\<rparr>]\<rparr>\<rparr>]\<rparr>"

definition quietRow :: RowEvents where
  "quietRow =
     \<lparr>generateContent = (\<lambda>p. Inr imageResponse), stopClicks = 0, randomUUID = js ''id'',
      dateNow = 0\<rparr>"

definition stopDuring :: "nat \<Rightarrow> environment" where
  "stopDuring i = (\<lambda>j. quietRow\<lparr>stopClicks := (if j = i then 1 else 0)\<rparr>)"

definition twoRows :: BulkGenerator where
  "twoRows = exampleState [exampleRow ''A1'' ''a mug'', exampleRow ''B2'' ''a hat'']"

definition noStops :: environment where
  "noStops = (\<lambda>j. quietRow)"



text \<open>
  Sheets for runs: a blank prompt in the second row, the three rows of the specification's
  end-to-end scenario, and a row without a file name cell followed by a row whose prompt
  cell is 0.
\<close>

definition mugThenBlank :: BulkGenerator where
  "mugThenBlank = exampleState [exampleRow ''A1'' ''a mug'', exampleRow ''B2'' ''  '']"

definition threeRows :: BulkGenerator where
  "threeRows =
     exampleState [exampleRow ''A1'' ''a mug'', exampleRow ''A1'' [], exampleRow ''B2'' ''a hat'']"


text \<open>A result with a given file name.\<close>

definition imageNamed :: "jsstring \<Rightarrow> GeneratedImage" where
  "imageNamed n =
     \<lparr>image_id = [], url = js ''data:image/png;base64,AAAA'', prompt = [], fileName = n,
      originalName = Some n, timestamp = 0\<rparr>"

section \<open>Properties of the string functions\<close>

lemma dropWhile_fixed: "xs = [] \<or> \<not> P (hd xs) \<Longrightarrow> dropWhile P xs = xs"
  by (cases xs) auto

lemma dropWhile_head: "dropWhile P xs = [] \<or> \<not> P (hd (dropWhile P xs))"
  using hd_dropWhile [of P xs] by blast

lemma strip_end_head:
  assumes "xs = [] \<or> \<not> P (hd xs)"
  shows "rev (dropWhile P (rev xs)) = [] \<or> \<not> P (hd (rev (dropWhile P (rev xs))))"
proof (cases "rev (dropWhile P (rev xs)) = []")
  case True
  then show ?thesis by simp
next
  case False
  have "xs = rev (dropWhile P (rev xs)) @ rev (takeWhile P (rev xs))"
    by (metis rev_append rev_rev_ident takeWhile_dropWhile_id)
  then have "hd xs = hd (rev (dropWhile P (rev xs)))"
    using False by (metis hd_append2)
  moreover have "xs \<noteq> []"
    using False by auto
  ultimately show ?thesis
    using assms by simp
qed

lemma trim_trim: "trim (trim s) = trim s"
proof -
  let ?t = "dropWhile isWhiteSpace s"
  let ?u = "rev (dropWhile isWhiteSpace (rev ?t))"
  have "?u = [] \<or> \<not> isWhiteSpace (hd ?u)"
    by (rule strip_end_head) (rule dropWhile_head)
  then have "dropWhile isWhiteSpace ?u = ?u"
    by (rule dropWhile_fixed)
  then show ?thesis
    by (simp add: trim_def)
qed

lemma set_trim: "set (trim s) \<subseteq> set s"
proof -
  have "set (trim s) = set (dropWhile isWhiteSpace (rev (dropWhile isWhiteSpace s)))"
    by (simp add: trim_def)
  also have "\<dots> \<subseteq> set (rev (dropWhile isWhiteSpace s))"
    by (rule set_dropWhileD [THEN subsetI])
  also have "\<dots> \<subseteq> set s"
    using set_dropWhileD [of _ isWhiteSpace s] by auto
  finally show ?thesis .
qed

lemma replaceAll_map:
  "replaceAll m [r] s = map (\<lambda>c. if m c then r else c) s"
  by (induction s) simp_all

lemma underscore_inClass: "inClass 0x5F"
  by (simp add: inClass_def)

lemma replace_all_inClass:
  "\<forall>c \<in> set (replaceAll (\<lambda>c. \<not> inClass c) (js ''_'') s). inClass c"
  by (induction s) (simp_all add: js_def underscore_inClass)

lemma replace_fixed:
  "\<forall>c \<in> set s. inClass c \<Longrightarrow> replaceAll (\<lambda>c. \<not> inClass c) r s = s"
  by (induction s) simp_all

lemma sanitize_inClass: "\<forall>c \<in> set (sanitize s). inClass c"
  using replace_all_inClass [of s] set_trim unfolding sanitize_def by blast

text \<open>
  C6: the effective prompt is the baseline, a period, a space and the row prompt when the
  baseline is not empty, and the row prompt itself when it is; the baseline
  "studio lighting" with the row prompt "red sneaker" gives "studio lighting. red sneaker".
\<close>

theorem C6_fullPrompt:
  "fullPrompt b p = (if b = [] then p else b @ js ''. '' @ p)
   \<and> fullPrompt (js ''studio lighting'') (js ''red sneaker'') = js ''studio lighting. red sneaker''
   \<and> fullPrompt [] (js ''red sneaker'') = js ''red sneaker''"
  by (simp add: fullPrompt_def js_def)

text \<open>
  C8: filename sanitization (the replacement of the characters outside the class followed
  by the trim, without the fallback name) is idempotent.
\<close>

theorem C8_sanitize_idempotent: "sanitize (sanitize s) = sanitize s"
proof -
  have "replaceAll (\<lambda>c. \<not> inClass c) (js ''_'') (sanitize s) = sanitize s"
    by (rule replace_fixed) (rule sanitize_inClass)
  then have "sanitize (sanitize s) = trim (sanitize s)"
    by (simp add: sanitize_def)
  also have "\<dots> = sanitize s"
    by (simp add: sanitize_def trim_trim)
  finally show ?thesis .
qed

section \<open>The pipeline\<close>

lemma addLog_simps [simp]:
  "status (addLog m s) = status s"
  "results (addLog m s) = results s"
  "abortRef (addLog m s) = abortRef s"
  "requests (addLog m s) = requests s"
  "excelData (addLog m s) = excelData s"
  "promptColumn (addLog m s) = promptColumn s"
  "filenameColumn (addLog m s) = filenameColumn s"
  "baselinePrompt (addLog m s) = baselinePrompt s"
  "logs (addLog m s) = take 50 (m # logs s)"
  by (simp_all add: addLog_def)

lemma incCompleted_simps [simp]:
  "status (incCompleted s) = (status s)\<lparr>completed := completed (status s) + 1\<rparr>"
  "results (incCompleted s) = results s"
  "abortRef (incCompleted s) = abortRef s"
  "requests (incCompleted s) = requests s"
  "excelData (incCompleted s) = excelData s"
  "promptColumn (incCompleted s) = promptColumn s"
  "filenameColumn (incCompleted s) = filenameColumn s"
  "baselinePrompt (incCompleted s) = baselinePrompt s"
  "logs (incCompleted s) = logs s"
  by (simp_all add: incCompleted_def)

lemma stopGeneration_simps [simp]:
  "status (stopGeneration s) = status s"
  "results (stopGeneration s) = results s"
  "requests (stopGeneration s) = requests s"
  "excelData (stopGeneration s) = excelData s"
  "promptColumn (stopGeneration s) = promptColumn s"
  "filenameColumn (stopGeneration s) = filenameColumn s"
  "baselinePrompt (stopGeneration s) = baselinePrompt s"
  "abortRef (stopGeneration s) = (abortRef s \<or> isProcessing (status s))"
  by (simp_all add: stopGeneration_def)

lemma stopClicks_simps [simp]:
  "status ((stopGeneration ^^ n) s) = status s"
  "results ((stopGeneration ^^ n) s) = results s"
  "requests ((stopGeneration ^^ n) s) = requests s"
  "excelData ((stopGeneration ^^ n) s) = excelData s"
  "promptColumn ((stopGeneration ^^ n) s) = promptColumn s"
  "filenameColumn ((stopGeneration ^^ n) s) = filenameColumn s"
  "baselinePrompt ((stopGeneration ^^ n) s) = baselinePrompt s"
  by (induction n) simp_all

lemma abortRef_stopClicks [simp]:
  "abortRef ((stopGeneration ^^ n) s) = (abortRef s \<or> (0 < n \<and> isProcessing (status s)))"
  by (induction n) auto

lemma processRow_config [simp]:
  "excelData (processRow ev i row s) = excelData s"
  "promptColumn (processRow ev i row s) = promptColumn s"
  "filenameColumn (processRow ev i row s) = filenameColumn s"
  "baselinePrompt (processRow ev i row s) = baselinePrompt s"
  by (simp_all add: processRow_def Let_def split: sum.splits)

lemma processRow_counters [simp]:
  "completed (status (processRow ev i row s)) = completed (status s) + 1"
  "total_rows (status (processRow ev i row s)) = total_rows (status s)"
  "isProcessing (status (processRow ev i row s)) = isProcessing (status s)"
  by (simp_all add: processRow_def Let_def split: sum.splits)

lemma abortRef_processRow:
  "abortRef (processRow ev i row s) =
     (abortRef s \<or> (\<not> blankPrompt row s \<and> 0 < stopClicks ev \<and> isProcessing (status s)))"
  by (simp add: processRow_def blankPrompt_def Let_def split: sum.splits)

lemma length_loopStates: "length (loopStates env i rows s) \<le> length rows"
  by (induction rows arbitrary: i s) (simp_all add: le_SucI)

lemma loop_loopStates:
  "loop env i rows s =
     (if length (loopStates env i rows s) < length rows
      then addLog (js ''Process stopped by user.'') (last (s # loopStates env i rows s))
      else last (s # loopStates env i rows s))"
proof (induction rows arbitrary: i s)
  case Nil
  then show ?case by simp
next
  case (Cons row rows)
  show ?case
  proof (cases "abortRef s")
    case True
    then show ?thesis by simp
  next
    case False
    then show ?thesis
      using Cons.IH [of "Suc i" "processRow (env i) i row s"] by simp
  qed
qed

lemma completed_loopStates:
  "k < length (loopStates env i rows s) \<Longrightarrow>
     completed (status (loopStates env i rows s ! k)) = completed (status s) + k + 1"
proof (induction rows arbitrary: i s k)
  case Nil
  then show ?case by simp
next
  case (Cons row rows)
  show ?case
  proof (cases "abortRef s")
    case True
    with Cons.prems show ?thesis by simp
  next
    case False
    show ?thesis
    proof (cases k)
      case 0
      with False show ?thesis by simp
    next
      case (Suc k')
      with False Cons.prems
      have "k' < length (loopStates env (Suc i) rows (processRow (env i) i row s))"
        by simp
      from Cons.IH [OF this] False Suc show ?thesis by simp
    qed
  qed
qed

lemma completed_last_loopStates:
  "completed (status (last (s # loopStates env i rows s))) =
     completed (status s) + length (loopStates env i rows s)"
proof (cases "loopStates env i rows s = []")
  case True
  then show ?thesis by simp
next
  case False
  then have "last (s # loopStates env i rows s) =
      loopStates env i rows s ! (length (loopStates env i rows s) - 1)"
    by (simp add: last_conv_nth)
  with False show ?thesis
    by (simp add: completed_loopStates)
qed

lemma history_upt:
  assumes "\<And>k. k < length h \<Longrightarrow> h ! k = Suc k"
  shows "h = [1..<Suc (length h)]"
proof (rule nth_equalityI)
  show "length h = length [1..<Suc (length h)]" by (simp del: upt_Suc)
next
  fix k assume "k < length h"
  then show "h ! k = [1..<Suc (length h)] ! k"
    using assms [of k] by (simp add: nth_upt del: upt_Suc)
qed

lemma total_loopStates:
  "t \<in> set (loopStates env i rows s) \<Longrightarrow> total_rows (status t) = total_rows (status s)"
proof (induction rows arbitrary: i s)
  case Nil
  then show ?case by simp
next
  case (Cons row rows)
  then show ?case
    by (cases "abortRef s") auto
qed

lemma loopStates_full:
  assumes "\<not> abortRef s"
    and "\<forall>j. i \<le> j \<and> Suc j < i + length rows \<longrightarrow> stopClicks (env j) = 0"
  shows "length (loopStates env i rows s) = length rows"
  using assms
proof (induction rows arbitrary: i s)
  case Nil
  then show ?case by simp
next
  case (Cons row rows)
  show ?case
  proof (cases rows)
    case Nil
    with Cons.prems show ?thesis by simp
  next
    case (Cons r rs)
    with Cons.prems have "stopClicks (env i) = 0" by simp
    with Cons.prems have "\<not> abortRef (processRow (env i) i row s)"
      by (simp add: abortRef_processRow)
    moreover have "\<forall>j. Suc i \<le> j \<and> Suc j < Suc i + length rows \<longrightarrow> stopClicks (env j) = 0"
      using Cons.prems by simp
    ultimately have "length (loopStates env (Suc i) rows (processRow (env i) i row s)) = length rows"
      by (rule Cons.IH)
    with Cons.prems show ?thesis by simp
  qed
qed

lemmas example_defs =
  twoRows_def exampleState_def exampleRow_def stopDuring_def quietRow_def imageResponse_def

lemmas run_defs =
  handleStartBulkGeneration_def startState_def finish_def finalStatus_def completedHistory_def
  processRow_def stringOr_def trim_def isWhiteSpace_def fullPrompt_def
  generateImageWithGemini_def extractImageFromResponse_def orDefault_def
  safeFileName_def sanitize_def inClass_def imageIndexName_def
  addLog_def incCompleted_def stopGeneration_def js_def Let_def

lemma count_list_upt:
  "count_list [a..<b] x = (if a \<le> x \<and> x < b then 1 else 0)"
  by (induction b) auto

text \<open>
  C1, as stated, fails on a run that is stopped early: with two rows and a click on the
  stop button while the first row is generated, the guard of the handler holds, the counter
  takes the value 1 only, and the run ends with \<open>completed = 1\<close> and \<open>total = 2\<close>.
\<close>

theorem C1_counterexample:
  "excelData twoRows \<noteq> [] \<and> promptColumn twoRows \<noteq> [] \<and> filenameColumn twoRows \<noteq> []
   \<and> completedHistory (stopDuring 0) twoRows = [1]
   \<and> completed (status (handleStartBulkGeneration (stopDuring 0) twoRows)) = 1
   \<and> total_rows (status (handleStartBulkGeneration (stopDuring 0) twoRows)) = 2"
  by (simp add: example_defs run_defs)

text \<open>
  C1, amended: for every run started on a non-empty row list with both column selections
  set, \<open>completed\<close> starts at 0 with \<open>total\<close> equal to the row count, increases by
  exactly 1 per processed row whatever the row's outcome, and never exceeds \<open>total\<close>; the
  final value is the number of rows processed. It takes the value \<open>total\<close> once when every
  row is processed and never otherwise; every row is processed when no stop is requested
  before the last row is in flight.
\<close>

theorem C1_completed_counter:
  assumes "excelData s \<noteq> []" and "promptColumn s \<noteq> []" and "filenameColumn s \<noteq> []"
  shows "completed (status (startState s)) = 0
    \<and> total_rows (status (startState s)) = length (excelData s)
    \<and> completedHistory env s = [1..<Suc (length (completedHistory env s))]
    \<and> length (completedHistory env s) \<le> length (excelData s)
    \<and> completed (status (handleStartBulkGeneration env s)) = length (completedHistory env s)
    \<and> total_rows (status (handleStartBulkGeneration env s)) = length (excelData s)
    \<and> count_list (completedHistory env s) (length (excelData s)) =
        (if length (completedHistory env s) = length (excelData s) then 1 else 0)
    \<and> ((\<forall>j. Suc j < length (excelData s) \<longrightarrow> stopClicks (env j) = 0)
        \<longrightarrow> length (completedHistory env s) = length (excelData s))"
proof -
  let ?s0 = "startState s"
  let ?st = "loopStates env 0 (excelData s) ?s0"
  let ?h = "completedHistory env s"
  have start: "completed (status ?s0) = 0" "total_rows (status ?s0) = length (excelData s)"
    "\<not> abortRef ?s0" "excelData ?s0 = excelData s"
    by (simp_all add: startState_def)
  have len: "length ?h = length ?st"
    by (simp add: completedHistory_def)
  have le: "length ?h \<le> length (excelData s)"
    unfolding len by (rule length_loopStates)
  have "\<And>k. k < length ?h \<Longrightarrow> ?h ! k = Suc k"
    using start(1) by (simp add: completedHistory_def completed_loopStates)
  then have upt: "?h = [1..<Suc (length ?h)]"
    by (rule history_upt)
  have run: "handleStartBulkGeneration env s = finish (loop env 0 (excelData s) ?s0)"
    using assms by (simp add: handleStartBulkGeneration_def)
  have fin: "status (loop env 0 (excelData s) ?s0) = status (last (?s0 # ?st))"
    by (simp add: loop_loopStates)
  have cnt: "completed (status (handleStartBulkGeneration env s)) = length ?h"
    using start(1) completed_last_loopStates [of ?s0 env 0 "excelData s"]
    by (simp add: run fin finish_def finalStatus_def len del: last.simps)
  have "total_rows (status (last (?s0 # ?st))) = total_rows (status ?s0)"
    using total_loopStates [of "last ?st" env 0 "excelData s" ?s0] by (cases "?st = []") simp_all
  then have tot: "total_rows (status (handleStartBulkGeneration env s)) = length (excelData s)"
    using start(2) by (simp add: run fin finish_def finalStatus_def del: last.simps)
  have "count_list [1..<Suc (length ?h)] (length (excelData s)) =
      (if length ?h = length (excelData s) then 1 else 0)"
    using le assms(1) unfolding count_list_upt by (cases "excelData s") auto
  then have once: "count_list ?h (length (excelData s)) =
      (if length ?h = length (excelData s) then 1 else 0)"
    using upt by simp
  have full: "(\<forall>j. Suc j < length (excelData s) \<longrightarrow> stopClicks (env j) = 0)
      \<longrightarrow> length ?h = length (excelData s)"
    unfolding len using loopStates_full [OF start(3), of 0 "excelData s" env] by simp
  from start(1,2) upt le cnt tot once full show ?thesis
    by blast
qed

text \<open>
  The amended C1 on the two-row sheet with no click: the counter runs through 1 and 2.
\<close>

theorem C1_completed_counter_witness:
  "excelData twoRows \<noteq> [] \<and> promptColumn twoRows \<noteq> [] \<and> filenameColumn twoRows \<noteq> []
   \<and> stopClicks (noStops 0) = 0
   \<and> completedHistory noStops twoRows = [1, 2]
   \<and> completed (status (handleStartBulkGeneration noStops twoRows)) = 2
   \<and> total_rows (status (handleStartBulkGeneration noStops twoRows)) = 2
   \<and> count_list (completedHistory noStops twoRows) 2 = 1"
proof -
  have g: "excelData twoRows \<noteq> []" "promptColumn twoRows \<noteq> []" "filenameColumn twoRows \<noteq> []"
    by (simp_all add: example_defs js_def)
  have q: "\<forall>j. Suc j < length (excelData twoRows) \<longrightarrow> stopClicks (noStops j) = 0"
    by (simp add: noStops_def quietRow_def)
  have n: "length (excelData twoRows) = 2"
    by (simp add: example_defs)
  note c1 = C1_completed_counter [OF g, of noStops, unfolded n]
  from c1 q n have len: "length (completedHistory noStops twoRows) = 2"
    by simp
  from c1 have "completedHistory noStops twoRows =
      [1..<Suc (length (completedHistory noStops twoRows))]"
    by blast
  then have h: "completedHistory noStops twoRows = [1, 2]"
    unfolding len by (simp add: upt_rec)
  from c1 len have "completed (status (handleStartBulkGeneration noStops twoRows)) = 2"
    and "total_rows (status (handleStartBulkGeneration noStops twoRows)) = 2"
    and "count_list (completedHistory noStops twoRows) 2 = 1"
    by (simp_all add: count_list_upt)
  moreover have "stopClicks (noStops 0) = 0"
    by (simp add: noStops_def quietRow_def)
  ultimately show ?thesis
    using g h by blast
qed

section \<open>The client\<close>

lemma scanParts_find: "scanParts ps = map_option dataUrl (find carriesImage ps)"
  by (induction ps) (auto simp: carriesImage_def dataUrl_def orDefault_def split: option.splits)

lemma extract_find:
  "extractImageFromResponse r = map_option dataUrl (find carriesImage (firstCandidateParts r))"
  by (simp add: extractImageFromResponse_def firstCandidateParts_def scanParts_find
      split: option.splits list.splits)

text \<open>
  C7: the extraction looks at the parts of the first candidate only, in order, and returns
  the data URL of the first part that carries inline data, with the part's media type or
  \<open>image/png\<close> when it declares none; later candidates are ignored, and a response
  without candidates yields nothing. The generate operation fails exactly when the
  transport call fails or the first candidate has no such part.
\<close>

theorem C7_extraction:
  "extractImageFromResponse r = map_option dataUrl (find carriesImage (firstCandidateParts r))
   \<and> extractImageFromResponse (r\<lparr>candidates := Some (c # cs)\<rparr>) =
       extractImageFromResponse (r\<lparr>candidates := Some [c]\<rparr>)
   \<and> extractImageFromResponse (r\<lparr>candidates := None\<rparr>) = None
   \<and> extractImageFromResponse (r\<lparr>candidates := Some []\<rparr>) = None
   \<and> generateImageWithGemini t p =
       (case t p of
          Inl e \<Rightarrow> Inl (TransportFailure e)
        | Inr response \<Rightarrow>
            (case find carriesImage (firstCandidateParts response) of
               None \<Rightarrow> Inl NoImageGenerated
             | Some part \<Rightarrow> Inr (dataUrl part)))
   \<and> (isl (generateImageWithGemini t p) \<longleftrightarrow>
        (case t p of
           Inl e \<Rightarrow> True
         | Inr response \<Rightarrow> find carriesImage (firstCandidateParts response) = None))"
proof -
  have "extractImageFromResponse (r\<lparr>candidates := Some (c # cs)\<rparr>) =
      extractImageFromResponse (r\<lparr>candidates := Some [c]\<rparr>)"
    and "extractImageFromResponse (r\<lparr>candidates := None\<rparr>) = None"
    and "extractImageFromResponse (r\<lparr>candidates := Some []\<rparr>) = None"
    by (simp_all add: extractImageFromResponse_def)
  moreover have "generateImageWithGemini t p =
       (case t p of
          Inl e \<Rightarrow> Inl (TransportFailure e)
        | Inr response \<Rightarrow>
            (case find carriesImage (firstCandidateParts response) of
               None \<Rightarrow> Inl NoImageGenerated
             | Some part \<Rightarrow> Inr (dataUrl part)))"
    by (simp add: generateImageWithGemini_def extract_find split: sum.splits option.splits)
  moreover from this have "isl (generateImageWithGemini t p) \<longleftrightarrow>
        (case t p of
           Inl e \<Rightarrow> True
         | Inr response \<Rightarrow> find carriesImage (firstCandidateParts response) = None)"
    by (simp split: sum.splits option.splits)
  ultimately show ?thesis
    using extract_find by blast
qed

section \<open>File names\<close>





lemma digit_inClass: "0x30 \<le> c \<and> c \<le> 0x39 \<Longrightarrow> inClass (c :: 16 word)"
  by (simp add: inClass_def)




lemma imageIndexName_nonempty: "imageIndexName i \<noteq> []"
  by (simp add: imageIndexName_def js_def)

lemma safeFileName_nonempty: "safeFileName i n \<noteq> []"
  by (simp add: safeFileName_def imageIndexName_nonempty)


lemma startState_simps [simp]:
  "results (startState s) = []"
  "abortRef (startState s) = False"
  "requests (startState s) = requests s"
  "excelData (startState s) = excelData s"
  "promptColumn (startState s) = promptColumn s"
  "filenameColumn (startState s) = filenameColumn s"
  "baselinePrompt (startState s) = baselinePrompt s"
  "status (startState s) =
     \<lparr>total_rows = length (excelData s), completed = 0, isProcessing = True, currentAction = None\<rparr>"
  "logs (startState s) = take 50 (js ''Starting bulk generation...'' # logs s)"
  by (simp_all add: startState_def)

lemma finish_simps [simp]:
  "results (finish s) = results s"
  "abortRef (finish s) = False"
  "requests (finish s) = requests s"
  "logs (finish s) = logs s"
  "completed (status (finish s)) = completed (status s)"
  "total_rows (status (finish s)) = total_rows (status s)"
  "isProcessing (status (finish s)) = False"
  "currentAction (status (finish s)) = Some (js ''Completed!'')"
  by (simp_all add: finish_def finalStatus_def)

lemma finishInOrder_simps [simp]:
  "results (finishInOrder s) = results s"
  "abortRef (finishInOrder s) = False"
  "requests (finishInOrder s) = requests s"
  "logs (finishInOrder s) = logs s"
  "completed (status (finishInOrder s)) = completed (status s)"
  "total_rows (status (finishInOrder s)) = total_rows (status s)"
  "isProcessing (status (finishInOrder s)) = False"
  "currentAction (status (finishInOrder s)) =
     Some (if abortRef s then js ''Stopped'' else js ''Completed!'')"
  by (simp_all add: finishInOrder_def finalStatus_def)

lemma fileName_processRow:
  "\<forall>img \<in> set (results s). fileName img \<noteq> [] \<Longrightarrow>
     \<forall>img \<in> set (results (processRow ev i row s)). fileName img \<noteq> []"
  by (auto simp: processRow_def Let_def safeFileName_nonempty split: sum.splits)

lemma fileName_loop:
  "\<forall>img \<in> set (results s). fileName img \<noteq> [] \<Longrightarrow>
     \<forall>img \<in> set (results (loop env i rows s)). fileName img \<noteq> []"
proof (induction rows arbitrary: i s)
  case Nil
  then show ?case by simp
next
  case (Cons row rows)
  show ?case
  proof (cases "abortRef s")
    case True
    with Cons.prems show ?thesis by simp
  next
    case False
    have "\<forall>img \<in> set (results (loop env (Suc i) rows (processRow (env i) i row s))). fileName img \<noteq> []"
      by (rule Cons.IH) (rule fileName_processRow [OF Cons.prems])
    with False show ?thesis by simp
  qed
qed

text \<open>
  C3, as stated, fails on a name with a tab inside: the code keeps the tab of \<open>a<TAB>b\<close>,
  because \<open>\s\<close> is in the character class, where the claimed set (letters, digits,
  underscore, hyphen, space) would turn it into an underscore.
\<close>

theorem C3_counterexample:
  "safeFileName 0 [0x61, 0x09, 0x62] = [0x61, 0x09, 0x62]
   \<and> safeFileName_spec 0 [0x61, 0x09, 0x62] = [0x61, 0x5F, 0x62]"
  by (simp add: safeFileName_def safeFileName_spec_def sanitize_def trim_def inClass_def
      specClass_def isWhiteSpace_def js_def)

lemma inClass_spec: "inClass c \<longleftrightarrow> specClass c \<or> isWhiteSpace c"
  by (auto simp: inClass_def specClass_def isWhiteSpace_def)

lemma sanitize_map:
  "sanitize n = trim (map (\<lambda>c. if specClass c \<or> isWhiteSpace c then c else 0x5F) n)"
proof -
  have "replaceAll (\<lambda>c. \<not> inClass c) (js ''_'') n = map (\<lambda>c. if \<not> inClass c then 0x5F else c) n"
    by (simp add: js_def replaceAll_map)
  also have "\<dots> = map (\<lambda>c. if specClass c \<or> isWhiteSpace c then c else 0x5F) n"
  proof (rule map_cong [OF refl])
    fix c :: "16 word"
    show "(if \<not> inClass c then 0x5F else c) = (if specClass c \<or> isWhiteSpace c then c else 0x5F)"
      using inClass_spec [of c] by (cases "inClass c") simp_all
  qed
  finally show ?thesis
    by (simp only: sanitize_def)
qed

text \<open>
  C3, amended: the sanitized file name is the value with every character replaced by an
  underscore unless it is an ASCII letter, a digit, an underscore, a hyphen or a
  white-space character (the class \<open>\s\<close>: space, tab, line terminators and the Unicode
  spaces), then trimmed, with \<open>image-<index>\<close> standing in for an empty result; it is
  never empty, and every result of a started run has a non-empty file name.
\<close>

theorem C3_safeFileName:
  assumes "excelData s \<noteq> []" and "promptColumn s \<noteq> []" and "filenameColumn s \<noteq> []"
  shows "safeFileName i n =
      (let t = trim (map (\<lambda>c. if specClass c \<or> isWhiteSpace c then c else 0x5F) n)
       in if t = [] then js ''image-'' @ natToString i else t)
    \<and> safeFileName i n \<noteq> []
    \<and> (\<forall>img \<in> set (results (handleStartBulkGeneration env s)). fileName img \<noteq> [])"
proof -
  have "safeFileName i n =
      (let t = trim (map (\<lambda>c. if specClass c \<or> isWhiteSpace c then c else 0x5F) n)
       in if t = [] then js ''image-'' @ natToString i else t)"
    by (simp add: safeFileName_def imageIndexName_def Let_def sanitize_map)
  moreover have "\<forall>img \<in> set (results (handleStartBulkGeneration env s)). fileName img \<noteq> []"
    using assms fileName_loop [of "startState s" env 0 "excelData s"]
    by (simp add: handleStartBulkGeneration_def)
  ultimately show ?thesis
    using safeFileName_nonempty by blast
qed


text \<open>
  The amended C3 at concrete names, and on the results of the two-row run.
\<close>

theorem C3_safeFileName_witness:
  "excelData twoRows \<noteq> [] \<and> promptColumn twoRows \<noteq> [] \<and> filenameColumn twoRows \<noteq> []
   \<and> safeFileName 7 (js ''a b/c.png '') = js ''a b_c_png''
   \<and> safeFileName 7 (js ''   '') = js ''image-7''
   \<and> map fileName (results (handleStartBulkGeneration noStops twoRows)) = [js ''A1'', js ''B2'']
   \<and> fileName (hd (results (handleStartBulkGeneration noStops twoRows))) \<noteq> []"
proof -
  have g: "excelData twoRows \<noteq> []" "promptColumn twoRows \<noteq> []" "filenameColumn twoRows \<noteq> []"
    by (simp_all add: example_defs js_def)
  have r: "map fileName (results (handleStartBulkGeneration noStops twoRows)) = [js ''A1'', js ''B2'']"
    by (simp add: example_defs noStops_def run_defs)
  then have "hd (results (handleStartBulkGeneration noStops twoRows))
      \<in> set (results (handleStartBulkGeneration noStops twoRows))"
    by (cases "results (handleStartBulkGeneration noStops twoRows)") simp_all
  with C3_safeFileName [OF g, of 7 "js ''a b/c.png ''" noStops]
  have "fileName (hd (results (handleStartBulkGeneration noStops twoRows))) \<noteq> []"
    by blast
  moreover from C3_safeFileName [OF g, of 7 "js ''a b/c.png ''" noStops]
  have "safeFileName 7 (js ''a b/c.png '') = js ''a b_c_png''"
    by (simp add: trim_def specClass_def isWhiteSpace_def js_def natToString.simps)
  moreover from C3_safeFileName [OF g, of 7 "js ''   ''" noStops]
  have "safeFileName 7 (js ''   '') = js ''image-7''"
    by (simp add: trim_def specClass_def isWhiteSpace_def js_def natToString.simps)
  ultimately show ?thesis
    using g r by blast
qed

section \<open>One row\<close>

lemma requests_processRow:
  "requests (processRow ev i row s) =
     (if blankPrompt row s then requests s
      else requests s @ [fullPrompt (baselinePrompt s) (stringOr (row (promptColumn s)) [])])"
  by (simp add: processRow_def blankPrompt_def Let_def split: sum.splits)

lemma results_processRow:
  "results (processRow ev i row s) =
     (if blankPrompt row s then results s
      else case generateImageWithGemini (generateContent ev)
                  (fullPrompt (baselinePrompt s) (stringOr (row (promptColumn s)) [])) of
             Inl err \<Rightarrow> results s
           | Inr imageUrl \<Rightarrow>
               results s @
               [\<lparr>image_id = randomUUID ev, url = imageUrl,
                 prompt = fullPrompt (baselinePrompt s) (stringOr (row (promptColumn s)) []),
                 fileName = safeFileName i (stringOr (row (filenameColumn s)) (imageIndexName i)),
                 originalName = Some (stringOr (row (filenameColumn s)) (imageIndexName i)),
                 timestamp = dateNow ev\<rparr>])"
  by (simp add: processRow_def blankPrompt_def Let_def split: sum.splits)

lemma processRow_blank:
  "blankPrompt row s \<Longrightarrow>
     processRow ev i row s =
       incCompleted (addLog (js ''Skipping row '' @ natToString (i + 1) @ js '': Empty prompt'') s)"
  by (simp add: processRow_def blankPrompt_def)



section \<open>Cancellation\<close>

lemma status_processRow:
  "status (processRow ev i row s) =
     (if blankPrompt row s then (status s)\<lparr>completed := completed (status s) + 1\<rparr>
      else (status s)\<lparr>currentAction :=
              Some (js ''Generating: '' @ stringOr (row (filenameColumn s)) (imageIndexName i)),
              completed := completed (status s) + 1\<rparr>)"
  by (simp add: processRow_def blankPrompt_def Let_def split: sum.splits)

lemma blankPrompt_processRow [simp]:
  "blankPrompt r (processRow ev i row s) = blankPrompt r s"
  by (simp add: blankPrompt_def)

lemma observable_processRow:
  assumes "observable s = observable t"
    and "promptColumn s = promptColumn t" and "filenameColumn s = filenameColumn t"
    and "baselinePrompt s = baselinePrompt t"
  shows "observable (processRow ev i row s) =
     observable (processRow (ev\<lparr>stopClicks := 0\<rparr>) i row t)"
proof -
  from assms(2) have "blankPrompt row s = blankPrompt row t"
    by (simp add: blankPrompt_def)
  with assms show ?thesis
    by (simp add: observable_def status_processRow results_processRow requests_processRow
        split: sum.splits)
qed

lemma loopStates_abort: "abortRef s \<Longrightarrow> loopStates env i rows s = []"
  by (cases rows) simp_all

lemma loopStates_prefix:
  assumes "observable s = observable t"
    and "promptColumn s = promptColumn t" and "filenameColumn s = filenameColumn t"
    and "baselinePrompt s = baselinePrompt t"
    and "\<not> abortRef t"
  shows "map observable (loopStates env i rows s) =
     take (length (loopStates env i rows s))
       (map observable (loopStates (withoutStops env) i rows t))"
  using assms
proof (induction rows arbitrary: i s t)
  case Nil
  then show ?case by simp
next
  case (Cons row rows)
  show ?case
  proof (cases "abortRef s")
    case True
    then show ?thesis by simp
  next
    case False
    let ?s' = "processRow (env i) i row s"
    let ?t' = "processRow (withoutStops env i) i row t"
    have obs: "observable ?s' = observable ?t'"
      using Cons.prems(1-4) unfolding withoutStops_def by (rule observable_processRow)
    have "\<not> abortRef ?t'"
      using Cons.prems(5) by (simp add: abortRef_processRow withoutStops_def)
    with obs Cons.prems(2-4)
    have "map observable (loopStates env (Suc i) rows ?s') =
       take (length (loopStates env (Suc i) rows ?s'))
         (map observable (loopStates (withoutStops env) (Suc i) rows ?t'))"
      by (intro Cons.IH) simp_all
    with False Cons.prems(5) obs show ?thesis by simp
  qed
qed

lemma loopStates_stopped_at:
  assumes "\<not> abortRef s" and "isProcessing (status s)"
    and "k < length rows" and "\<not> blankPrompt (rows ! k) s"
    and "0 < stopClicks (env (i + k))" and "\<forall>j<k. stopClicks (env (i + j)) = 0"
  shows "length (loopStates env i rows s) = Suc k \<and> abortRef (last (loopStates env i rows s))"
  using assms
proof (induction rows arbitrary: i s k)
  case Nil
  then show ?case by simp
next
  case (Cons row rows)
  let ?s' = "processRow (env i) i row s"
  show ?case
  proof (cases k)
    case 0
    with Cons.prems have "abortRef ?s'"
      by (simp add: abortRef_processRow)
    then have "loopStates env (Suc i) rows ?s' = []"
      by (rule loopStates_abort)
    with Cons.prems(1) \<open>abortRef ?s'\<close> 0 show ?thesis by simp
  next
    case (Suc k')
    with Cons.prems have "stopClicks (env i) = 0"
      by (metis add.right_neutral zero_less_Suc)
    with Cons.prems(1) have a: "\<not> abortRef ?s'"
      by (simp add: abortRef_processRow)
    have b: "isProcessing (status ?s')"
      using Cons.prems(2) by simp
    have c: "k' < length rows" and d: "\<not> blankPrompt (rows ! k') ?s'"
      and e: "0 < stopClicks (env (Suc i + k'))"
      using Cons.prems(3,4,5) Suc by simp_all
    have f: "\<forall>j<k'. stopClicks (env (Suc i + j)) = 0"
    proof (intro allI impI)
      fix j assume "j < k'"
      then have "Suc j < k" using Suc by simp
      with Cons.prems(6) have "stopClicks (env (i + Suc j)) = 0" by blast
      then show "stopClicks (env (Suc i + j)) = 0" by simp
    qed
    from Cons.IH [OF a b c d e f]
    have "length (loopStates env (Suc i) rows ?s') = Suc k'"
      and "abortRef (last (loopStates env (Suc i) rows ?s'))"
      by simp_all
    moreover from this have "loopStates env (Suc i) rows ?s' \<noteq> []"
      by auto
    ultimately show ?thesis
      using Cons.prems(1) Suc by simp
  qed
qed

lemma withoutStops_full:
  "\<not> abortRef s \<Longrightarrow> length (loopStates (withoutStops env) i rows s) = length rows"
  by (rule loopStates_full) (simp_all add: withoutStops_def)

lemma loop_fields:
  "results (loop env i rows s) = results (last (s # loopStates env i rows s))"
  "requests (loop env i rows s) = requests (last (s # loopStates env i rows s))"
  "status (loop env i rows s) = status (last (s # loopStates env i rows s))"
  "abortRef (loop env i rows s) = abortRef (last (s # loopStates env i rows s))"
  by (simp_all add: loop_loopStates del: last.simps)

lemma notin_addLog:
  "m \<notin> set (logs s) \<Longrightarrow> msg \<noteq> m \<Longrightarrow> m \<notin> set (logs (addLog msg s))"
  by (auto dest: in_set_takeD)

lemma notin_stopGeneration:
  "js ''Process stopped by user.'' \<notin> set (logs s) \<Longrightarrow>
     js ''Process stopped by user.'' \<notin> set (logs (stopGeneration s))"
  by (auto simp: stopGeneration_def js_def dest: in_set_takeD)

lemma notin_stopClicks:
  "js ''Process stopped by user.'' \<notin> set (logs s) \<Longrightarrow>
     js ''Process stopped by user.'' \<notin> set (logs ((stopGeneration ^^ n) s))"
  by (induction n) (simp_all add: notin_stopGeneration)

lemma notin_processRow:
  assumes "js ''Process stopped by user.'' \<notin> set (logs s)"
  shows "js ''Process stopped by user.'' \<notin> set (logs (processRow ev i row s))"
proof (cases "blankPrompt row s")
  case True
  with assms show ?thesis
    by (auto simp: processRow_blank js_def dest: in_set_takeD)
next
  case False
  let ?m = "js ''Process stopped by user.''"
  let ?name = "stringOr (row (filenameColumn s)) (imageIndexName i)"
  let ?p = "fullPrompt (baselinePrompt s) (stringOr (row (promptColumn s)) [])"
  let ?s3 = "(stopGeneration ^^ stopClicks ev)
      (s\<lparr>status := (status s)\<lparr>currentAction := Some (js ''Generating: '' @ ?name)\<rparr>,
         requests := requests s @ [?p]\<rparr>)"
  have s3: "?m \<notin> set (logs ?s3)"
    using assms by (intro notin_stopClicks) simp
  have ok: "?m \<notin> set (logs (addLog (js ''Success: '' @ ?name) (?s3\<lparr>results := rs\<rparr>)))" for rs
    using s3 by (intro notin_addLog) (simp_all add: js_def)
  have failed: "?m \<notin> set (logs (addLog (js ''Failed row '' @ natToString (i + 1) @ js '' ('' @ ?name
      @ js ''): '' @ errorToString err) ?s3))" for err
    using s3 by (intro notin_addLog) (simp_all add: js_def)
  from False ok failed show ?thesis
    by (simp add: processRow_def blankPrompt_def Let_def del: addLog_simps(9) split: sum.splits)
qed

lemma notin_loopStates:
  "js ''Process stopped by user.'' \<notin> set (logs s) \<Longrightarrow>
     js ''Process stopped by user.'' \<notin> set (logs (last (s # loopStates env i rows s)))"
proof (induction rows arbitrary: i s)
  case Nil
  then show ?case by simp
next
  case (Cons row rows)
  show ?case
  proof (cases "abortRef s")
    case True
    with Cons.prems show ?thesis by simp
  next
    case False
    from Cons.prems have "js ''Process stopped by user.'' \<notin> set (logs (processRow (env i) i row s))"
      by (rule notin_processRow)
    from Cons.IH [OF this, of "Suc i"] False show ?thesis by simp
  qed
qed

lemma notin_startState:
  "js ''Process stopped by user.'' \<notin> set (logs s) \<Longrightarrow>
     js ''Process stopped by user.'' \<notin> set (logs (startState s))"
  by (auto simp: js_def dest: in_set_takeD)

text \<open>
  When the first stop request arrives while row \<open>i\<close> is in flight, exactly the rows 0 to
  \<open>i\<close> are processed, and they are processed normally: results, calls and status after
  each of them are those of the run without the request, which goes on through all rows.
  No later row is started, so the run ends with the results and calls of row \<open>i\<close> and
  with \<open>completed = i + 1\<close>. The flag is set when the loop ends, and read in program order
  lines 119-120 would choose the action "Stopped"; the queued updater reads the flag after
  its reset and chooses "Completed!".
\<close>

lemma stop_request_at_row:
  assumes "excelData s \<noteq> []" and "promptColumn s \<noteq> []" and "filenameColumn s \<noteq> []"
    and "i < length (excelData s)" and "\<not> blankPrompt (excelData s ! i) s"
    and "0 < stopClicks (env i)" and "\<forall>j<i. stopClicks (env j) = 0"
  shows "length (loopStates env 0 (excelData s) (startState s)) = Suc i
    \<and> length (loopStates (withoutStops env) 0 (excelData s) (startState s)) = length (excelData s)
    \<and> map observable (loopStates env 0 (excelData s) (startState s)) =
        take (Suc i) (map observable (loopStates (withoutStops env) 0 (excelData s) (startState s)))
    \<and> results (handleStartBulkGeneration env s) =
        results (loopStates env 0 (excelData s) (startState s) ! i)
    \<and> requests (handleStartBulkGeneration env s) =
        requests (loopStates env 0 (excelData s) (startState s) ! i)
    \<and> completed (status (handleStartBulkGeneration env s)) = Suc i
    \<and> abortRef (loop env 0 (excelData s) (startState s))
    \<and> currentAction (status (finishInOrder (loop env 0 (excelData s) (startState s)))) =
        Some (js ''Stopped'')
    \<and> currentAction (status (handleStartBulkGeneration env s)) = Some (js ''Completed!'')
    \<and> isProcessing (status (handleStartBulkGeneration env s)) = False"
proof -
  let ?s0 = "startState s"
  let ?st = "loopStates env 0 (excelData s) ?s0"
  have nb: "\<not> blankPrompt (excelData s ! i) ?s0"
    using assms(5) by (simp add: blankPrompt_def)
  have "length ?st = Suc i \<and> abortRef (last ?st)"
    using assms(4,6,7) nb by (intro loopStates_stopped_at) simp_all
  then have len: "length ?st = Suc i" and ab: "abortRef (last ?st)"
    by simp_all
  from len have ne: "?st \<noteq> []"
    by auto
  then have lst: "last (?s0 # ?st) = ?st ! i"
    using len by (simp add: last_conv_nth)
  have full: "length (loopStates (withoutStops env) 0 (excelData s) ?s0) = length (excelData s)"
    by (rule withoutStops_full) simp
  have "map observable ?st =
      take (length ?st) (map observable (loopStates (withoutStops env) 0 (excelData s) ?s0))"
    by (rule loopStates_prefix) simp_all
  then have pre: "map observable ?st =
      take (Suc i) (map observable (loopStates (withoutStops env) 0 (excelData s) ?s0))"
    by (simp only: len)
  have run: "handleStartBulkGeneration env s = finish (loop env 0 (excelData s) ?s0)"
    using assms(1-3) by (simp add: handleStartBulkGeneration_def)
  have res: "results (handleStartBulkGeneration env s) = results (?st ! i)"
    and req: "requests (handleStartBulkGeneration env s) = requests (?st ! i)"
    by (simp_all only: run finish_simps loop_fields lst)
  have "completed (status (?st ! i)) = Suc i"
    using completed_loopStates [of i env 0 "excelData s" ?s0] len by simp
  then have cnt: "completed (status (handleStartBulkGeneration env s)) = Suc i"
    by (simp only: run finish_simps loop_fields lst)
  have flag: "abortRef (loop env 0 (excelData s) ?s0)"
    using ab ne by (simp only: loop_fields) simp
  then have ord: "currentAction (status (finishInOrder (loop env 0 (excelData s) ?s0))) =
      Some (js ''Stopped'')"
    by simp
  have act: "currentAction (status (handleStartBulkGeneration env s)) = Some (js ''Completed!'')"
    and idle: "isProcessing (status (handleStartBulkGeneration env s)) = False"
    by (simp_all add: run)
  from len full pre res req cnt flag ord act idle show ?thesis
    by blast
qed

text \<open>
  When the first stop request arrives while the final row is in flight, the loop ends by
  exhaustion: every row is processed, the loop's final state is the state after the last
  row (nothing is logged after it), \<open>completed\<close> equals \<open>total\<close>, the entry
  "Process stopped by user." is not written to the log, \<open>isProcessing\<close> ends false and
  the flag is reset. The flag is set when the loop ends, but the final action is
  "Completed!", as in the lemma before.
\<close>

lemma stop_request_at_final_row:
  assumes "excelData s \<noteq> []" and "promptColumn s \<noteq> []" and "filenameColumn s \<noteq> []"
    and "\<not> blankPrompt (last (excelData s)) s"
    and "0 < stopClicks (env (length (excelData s) - 1))"
    and "\<forall>j < length (excelData s) - 1. stopClicks (env j) = 0"
    and "js ''Process stopped by user.'' \<notin> set (logs s)"
  shows "length (loopStates env 0 (excelData s) (startState s)) = length (excelData s)
    \<and> loop env 0 (excelData s) (startState s) =
        last (loopStates env 0 (excelData s) (startState s))
    \<and> completed (status (handleStartBulkGeneration env s)) = length (excelData s)
    \<and> total_rows (status (handleStartBulkGeneration env s)) = length (excelData s)
    \<and> js ''Process stopped by user.'' \<notin> set (logs (handleStartBulkGeneration env s))
    \<and> abortRef (loop env 0 (excelData s) (startState s))
    \<and> currentAction (status (finishInOrder (loop env 0 (excelData s) (startState s)))) =
        Some (js ''Stopped'')
    \<and> currentAction (status (handleStartBulkGeneration env s)) = Some (js ''Completed!'')
    \<and> isProcessing (status (handleStartBulkGeneration env s)) = False
    \<and> abortRef (handleStartBulkGeneration env s) = False"
proof -
  let ?s0 = "startState s"
  let ?n = "length (excelData s)"
  let ?st = "loopStates env 0 (excelData s) ?s0"
  have n: "?n - 1 < ?n" "Suc (?n - 1) = ?n"
    using assms(1) by simp_all
  have "excelData s ! (?n - 1) = last (excelData s)"
    using assms(1) by (simp add: last_conv_nth)
  with assms(4) have nb: "\<not> blankPrompt (excelData s ! (?n - 1)) ?s0"
    by (simp add: blankPrompt_def)
  have "length ?st = Suc (?n - 1) \<and> abortRef (last ?st)"
    using n(1) assms(5,6) nb by (intro loopStates_stopped_at) simp_all
  then have len: "length ?st = ?n" and ab: "abortRef (last ?st)"
    using n(2) by simp_all
  from len assms(1) have ne: "?st \<noteq> []"
    by auto
  have lp: "loop env 0 (excelData s) ?s0 = last ?st"
    using len ne by (simp add: loop_loopStates)
  have run: "handleStartBulkGeneration env s = finish (last ?st)"
    using assms(1-3) lp by (simp add: handleStartBulkGeneration_def)
  have "completed (status (last (?s0 # ?st))) = completed (status ?s0) + length ?st"
    by (rule completed_last_loopStates)
  then have cnt: "completed (status (handleStartBulkGeneration env s)) = ?n"
    using ne len by (simp add: run)
  have "total_rows (status (last ?st)) = total_rows (status ?s0)"
    using ne by (intro total_loopStates [of _ env 0 "excelData s"]) simp
  then have tot: "total_rows (status (handleStartBulkGeneration env s)) = ?n"
    by (simp add: run)
  have "js ''Process stopped by user.'' \<notin> set (logs ?s0)"
    using assms(7) by (rule notin_startState)
  then have "js ''Process stopped by user.'' \<notin> set (logs (last (?s0 # ?st)))"
    by (rule notin_loopStates)
  then have lg: "js ''Process stopped by user.'' \<notin> set (logs (handleStartBulkGeneration env s))"
    using ne by (simp add: run)
  have set: "abortRef (loop env 0 (excelData s) ?s0)"
    using ab by (simp only: lp)
  then have ord: "currentAction (status (finishInOrder (loop env 0 (excelData s) ?s0))) =
      Some (js ''Stopped'')"
    by simp
  have act: "currentAction (status (handleStartBulkGeneration env s)) = Some (js ''Completed!'')"
    and idle: "isProcessing (status (handleStartBulkGeneration env s)) = False"
    and flag: "abortRef (handleStartBulkGeneration env s) = False"
    by (simp_all add: run)
  from len lp cnt tot lg set ord act idle flag show ?thesis
    by blast
qed

text \<open>
  C4 on a sheet of two rows with a click on the stop button while the first row is
  generated: the first row completes (one call, one result, \<open>completed = 1\<close> of 2), the
  second row is not started, the loop ends at the flag check with its log entry, and the
  final action is "Completed!", where the claim says "Stopped".
\<close>

theorem C4_stop_request_action:
  "length (loopStates (stopDuring 0) 0 (excelData twoRows) (startState twoRows)) = 1
   \<and> map fileName (results (handleStartBulkGeneration (stopDuring 0) twoRows)) = [js ''A1'']
   \<and> requests (handleStartBulkGeneration (stopDuring 0) twoRows) = [js ''studio lighting. a mug'']
   \<and> completed (status (handleStartBulkGeneration (stopDuring 0) twoRows)) = 1
   \<and> total_rows (status (handleStartBulkGeneration (stopDuring 0) twoRows)) = 2
   \<and> abortRef (loop (stopDuring 0) 0 (excelData twoRows) (startState twoRows))
   \<and> hd (logs (handleStartBulkGeneration (stopDuring 0) twoRows)) = js ''Process stopped by user.''
   \<and> currentAction (status (handleStartBulkGeneration (stopDuring 0) twoRows)) =
       Some (js ''Completed!'')"
proof -
  have g: "excelData twoRows \<noteq> []" "promptColumn twoRows \<noteq> []" "filenameColumn twoRows \<noteq> []"
    by (simp_all add: example_defs js_def)
  have i: "0 < length (excelData twoRows)"
    by (simp add: example_defs)
  have b: "\<not> blankPrompt (excelData twoRows ! 0) twoRows"
    by (simp add: blankPrompt_def example_defs stringOr_def trim_def isWhiteSpace_def js_def)
  have c: "0 < stopClicks (stopDuring 0 0)"
    by (simp add: example_defs)
  have q: "\<forall>j<0. stopClicks (stopDuring 0 j) = 0"
    by simp
  have r: "map fileName (results (handleStartBulkGeneration (stopDuring 0) twoRows)) = [js ''A1'']"
    "requests (handleStartBulkGeneration (stopDuring 0) twoRows) = [js ''studio lighting. a mug'']"
    "total_rows (status (handleStartBulkGeneration (stopDuring 0) twoRows)) = 2"
    "hd (logs (handleStartBulkGeneration (stopDuring 0) twoRows)) = js ''Process stopped by user.''"
    by (simp_all add: example_defs run_defs)
  from stop_request_at_row [OF g i b c q] r show ?thesis
    by simp
qed

text \<open>
  C10 on the same sheet with the click while the second, final row is generated: both rows
  are processed, \<open>completed = total = 2\<close>, the log has no entry "Process stopped by
  user.", \<open>isProcessing\<close> is false and the flag is reset; the flag was set when the loop
  ended, and the final action is "Completed!", where the claim says "Stopped".
\<close>

theorem C10_stop_in_final_row_action:
  "length (loopStates (stopDuring 1) 0 (excelData twoRows) (startState twoRows)) = 2
   \<and> completed (status (handleStartBulkGeneration (stopDuring 1) twoRows)) = 2
   \<and> total_rows (status (handleStartBulkGeneration (stopDuring 1) twoRows)) = 2
   \<and> logs (handleStartBulkGeneration (stopDuring 1) twoRows) =
       [js ''Success: B2'', js ''Stopping generation after current item finishes...'',
        js ''Success: A1'', js ''Starting bulk generation...'']
   \<and> abortRef (loop (stopDuring 1) 0 (excelData twoRows) (startState twoRows))
   \<and> currentAction (status (handleStartBulkGeneration (stopDuring 1) twoRows)) =
       Some (js ''Completed!'')
   \<and> isProcessing (status (handleStartBulkGeneration (stopDuring 1) twoRows)) = False
   \<and> abortRef (handleStartBulkGeneration (stopDuring 1) twoRows) = False"
proof -
  have g: "excelData twoRows \<noteq> []" "promptColumn twoRows \<noteq> []" "filenameColumn twoRows \<noteq> []"
    by (simp_all add: example_defs js_def)
  have n: "length (excelData twoRows) = 2"
    by (simp add: example_defs)
  have b: "\<not> blankPrompt (last (excelData twoRows)) twoRows"
    by (simp add: blankPrompt_def example_defs stringOr_def trim_def isWhiteSpace_def js_def)
  have c: "0 < stopClicks (stopDuring 1 (length (excelData twoRows) - 1))"
    by (simp add: example_defs)
  have q: "\<forall>j < length (excelData twoRows) - 1. stopClicks (stopDuring 1 j) = 0"
    by (simp add: example_defs)
  have l: "js ''Process stopped by user.'' \<notin> set (logs twoRows)"
    by (simp add: example_defs)
  have r: "logs (handleStartBulkGeneration (stopDuring 1) twoRows) =
       [js ''Success: B2'', js ''Stopping generation after current item finishes...'',
        js ''Success: A1'', js ''Starting bulk generation...'']"
    by (simp add: example_defs run_defs)
  from stop_request_at_final_row [OF g b c q l, unfolded n] r show ?thesis
    by blast
qed

section \<open>Rows of a run\<close>

lemma rowPrompt_processRow [simp]: "rowPrompt (processRow ev i row s) = rowPrompt s"
  by (rule ext) (simp add: rowPrompt_def)

lemma blankPrompt_processRow_fun [simp]:
  "(\<lambda>r. \<not> blankPrompt r (processRow ev i row s)) = (\<lambda>r. \<not> blankPrompt r s)"
  by (rule ext) simp

lemma loopStates_nth:
  "k < length (loopStates env i rows s) \<Longrightarrow>
     loopStates env i rows s ! k =
       processRow (env (i + k)) (i + k) (rows ! k) ((s # loopStates env i rows s) ! k)"
proof (induction rows arbitrary: i s k)
  case Nil
  then show ?case by simp
next
  case (Cons row rows)
  show ?case
  proof (cases "abortRef s")
    case True
    with Cons.prems show ?thesis by simp
  next
    case False
    show ?thesis
    proof (cases k)
      case 0
      with False show ?thesis by simp
    next
      case (Suc k')
      with False Cons.prems
      have "k' < length (loopStates env (Suc i) rows (processRow (env i) i row s))"
        by simp
      from Cons.IH [OF this] False Suc show ?thesis by simp
    qed
  qed
qed

lemma completed_before:
  "k \<le> length (loopStates env i rows s) \<Longrightarrow>
     completed (status ((s # loopStates env i rows s) ! k)) = completed (status s) + k"
  by (cases k) (simp_all add: completed_loopStates)

lemma requests_run:
  "requests (last (s # loopStates env i rows s)) =
     requests s @
     map (rowPrompt s)
       (filter (\<lambda>r. \<not> blankPrompt r s) (take (length (loopStates env i rows s)) rows))"
proof (induction rows arbitrary: i s)
  case Nil
  then show ?case by simp
next
  case (Cons row rows)
  show ?case
  proof (cases "abortRef s")
    case True
    then show ?thesis by simp
  next
    case False
    with Cons.IH [of "processRow (env i) i row s" "Suc i"] show ?thesis
      by (simp add: requests_processRow rowPrompt_def del: last.simps)
         (simp add: rowPrompt_def)
  qed
qed

lemma results_run:
  "length (results (last (s # loopStates env i rows s))) \<le>
     length (results s) +
     length (filter (\<lambda>r. \<not> blankPrompt r s) (take (length (loopStates env i rows s)) rows))"
proof (induction rows arbitrary: i s)
  case Nil
  then show ?case by simp
next
  case (Cons row rows)
  show ?case
  proof (cases "abortRef s")
    case True
    then show ?thesis by simp
  next
    case False
    let ?s' = "processRow (env i) i row s"
    let ?L = "loopStates env (Suc i) rows ?s'"
    have step: "length (results ?s') \<le> length (results s) + (if blankPrompt row s then 0 else 1)"
      by (simp add: results_processRow split: sum.splits)
    have A: "last (s # loopStates env i (row # rows) s) = last (?s' # ?L)"
      using False by simp
    have B: "length (filter (\<lambda>r. \<not> blankPrompt r s)
          (take (length (loopStates env i (row # rows) s)) (row # rows))) =
        (if blankPrompt row s then 0 else 1) +
        length (filter (\<lambda>r. \<not> blankPrompt r s) (take (length ?L) rows))"
      using False by simp
    have "length (results (last (?s' # ?L))) \<le>
        length (results ?s') + length (filter (\<lambda>r. \<not> blankPrompt r s) (take (length ?L) rows))"
      using Cons.IH [of ?s' "Suc i"] by simp
    with step show ?thesis
      unfolding A B by linarith
  qed
qed

lemma results_grow_last:
  "set (results s) \<subseteq> set (results (last (s # loopStates env i rows s)))"
proof (induction rows arbitrary: i s)
  case Nil
  then show ?case by simp
next
  case (Cons row rows)
  show ?case
  proof (cases "abortRef s")
    case True
    then show ?thesis by simp
  next
    case False
    have "set (results s) \<subseteq> set (results (processRow (env i) i row s))"
      by (auto simp: results_processRow split: sum.splits)
    with False Cons.IH [of "processRow (env i) i row s" "Suc i"] show ?thesis
      by auto
  qed
qed

lemma results_grow_nth:
  "k < length (loopStates env i rows s) \<Longrightarrow>
     set (results (loopStates env i rows s ! k)) \<subseteq>
     set (results (last (s # loopStates env i rows s)))"
proof (induction rows arbitrary: i s k)
  case Nil
  then show ?case by simp
next
  case (Cons row rows)
  show ?case
  proof (cases "abortRef s")
    case True
    with Cons.prems show ?thesis by simp
  next
    case False
    show ?thesis
    proof (cases k)
      case 0
      with False results_grow_last [of "processRow (env i) i row s" env "Suc i" rows]
      show ?thesis by simp
    next
      case (Suc k')
      with False Cons.prems
      have "k' < length (loopStates env (Suc i) rows (processRow (env i) i row s))"
        by simp
      from Cons.IH [OF this] False Suc Cons.prems show ?thesis
        by (auto simp del: last.simps simp: last_ConsR)
    qed
  qed
qed

lemma handler_fields:
  assumes "excelData s \<noteq> []" and "promptColumn s \<noteq> []" and "filenameColumn s \<noteq> []"
  shows "results (handleStartBulkGeneration env s) =
      results (last (startState s # loopStates env 0 (excelData s) (startState s)))"
    and "requests (handleStartBulkGeneration env s) =
      requests (last (startState s # loopStates env 0 (excelData s) (startState s)))"
    and "completed (status (handleStartBulkGeneration env s)) = rowsReached env s"
  using assms completed_last_loopStates [of "startState s" env 0 "excelData s"]
  by (simp_all add: handleStartBulkGeneration_def loop_fields rowsReached_def del: last.simps)

lemma config_loopStates:
  "t \<in> set (loopStates env i rows s) \<Longrightarrow>
     promptColumn t = promptColumn s \<and> filenameColumn t = filenameColumn s
     \<and> baselinePrompt t = baselinePrompt s"
proof (induction rows arbitrary: i s)
  case Nil
  then show ?case by simp
next
  case (Cons row rows)
  then show ?case
    by (cases "abortRef s") auto
qed

lemma config_before:
  assumes "k \<le> length (loopStates env i rows s)"
  shows "promptColumn ((s # loopStates env i rows s) ! k) = promptColumn s"
    and "filenameColumn ((s # loopStates env i rows s) ! k) = filenameColumn s"
    and "baselinePrompt ((s # loopStates env i rows s) ! k) = baselinePrompt s"
proof -
  have "(s # loopStates env i rows s) ! k = s
      \<or> (s # loopStates env i rows s) ! k \<in> set (loopStates env i rows s)"
    using assms by (cases k) simp_all
  then show "promptColumn ((s # loopStates env i rows s) ! k) = promptColumn s"
    and "filenameColumn ((s # loopStates env i rows s) ! k) = filenameColumn s"
    and "baselinePrompt ((s # loopStates env i rows s) ! k) = baselinePrompt s"
    using config_loopStates [of _ env i rows s] by auto
qed

lemma logs_loop:
  "logs (loop env i rows s) =
     (if length (loopStates env i rows s) < length rows
      then take 50 (js ''Process stopped by user.'' # logs (last (s # loopStates env i rows s)))
      else logs (last (s # loopStates env i rows s)))"
  by (simp add: loop_loopStates del: last.simps)

text \<open>The state that the handler returns, in terms of the history of its run.\<close>

lemma handler_history:
  assumes "excelData s \<noteq> []" and "promptColumn s \<noteq> []" and "filenameColumn s \<noteq> []"
  shows "results (handleStartBulkGeneration env s) = results (stateBefore env s (rowsReached env s))"
    and "requests (handleStartBulkGeneration env s) = requests (stateBefore env s (rowsReached env s))"
    and "completed (status (handleStartBulkGeneration env s)) = rowsReached env s"
    and "logs (handleStartBulkGeneration env s) =
      (if rowsReached env s < length (excelData s)
       then take 50 (js ''Process stopped by user.'' # logs (stateBefore env s (rowsReached env s)))
       else logs (stateBefore env s (rowsReached env s)))"
proof -
  let ?s0 = "startState s"
  let ?st = "loopStates env 0 (excelData s) ?s0"
  have lst: "stateBefore env s (rowsReached env s) = last (?s0 # ?st)"
    unfolding stateBefore_def rowsReached_def
    by (metis last_conv_nth length_Cons diff_Suc_1 list.distinct(1))
  show "results (handleStartBulkGeneration env s) = results (stateBefore env s (rowsReached env s))"
    and "requests (handleStartBulkGeneration env s) = requests (stateBefore env s (rowsReached env s))"
    and "completed (status (handleStartBulkGeneration env s)) = rowsReached env s"
    unfolding lst using handler_fields [OF assms, of env] by simp_all
  show "logs (handleStartBulkGeneration env s) =
      (if rowsReached env s < length (excelData s)
       then take 50 (js ''Process stopped by user.'' # logs (stateBefore env s (rowsReached env s)))
       else logs (stateBefore env s (rowsReached env s)))"
    unfolding lst using assms
    by (simp add: handleStartBulkGeneration_def logs_loop rowsReached_def del: last.simps)
qed

text \<open>Row \<open>k\<close> of a run is processed by the loop body at index \<open>k\<close>.\<close>

lemma row_of_run:
  assumes "k < rowsReached env s"
  shows "stateAfter env s k = processRow (env k) k (excelData s ! k) (stateBefore env s k)"
    and "promptColumn (stateBefore env s k) = promptColumn s"
    and "filenameColumn (stateBefore env s k) = filenameColumn s"
    and "baselinePrompt (stateBefore env s k) = baselinePrompt s"
    and "completed (status (stateBefore env s k)) = k"
    and "set (results (stateAfter env s k)) \<subseteq> set (results (stateBefore env s (rowsReached env s)))"
proof -
  let ?s0 = "startState s"
  let ?st = "loopStates env 0 (excelData s) ?s0"
  from assms have k: "k < length ?st"
    by (simp add: rowsReached_def)
  from loopStates_nth [OF k] show "stateAfter env s k =
      processRow (env k) k (excelData s ! k) (stateBefore env s k)"
    by (simp add: stateAfter_def stateBefore_def)
  from k have le: "k \<le> length ?st"
    by simp
  from config_before [OF le] show "promptColumn (stateBefore env s k) = promptColumn s"
    and "filenameColumn (stateBefore env s k) = filenameColumn s"
    and "baselinePrompt (stateBefore env s k) = baselinePrompt s"
    by (simp_all add: stateBefore_def)
  from completed_before [OF le] show "completed (status (stateBefore env s k)) = k"
    by (simp add: stateBefore_def)
  have "stateBefore env s (rowsReached env s) = last (?s0 # ?st)"
    unfolding stateBefore_def rowsReached_def
    by (metis last_conv_nth length_Cons diff_Suc_1 list.distinct(1))
  with results_grow_nth [OF k]
  show "set (results (stateAfter env s k)) \<subseteq> set (results (stateBefore env s (rowsReached env s)))"
    by (simp add: stateAfter_def)
qed

text \<open>
  C5, as stated for every row, fails on a row that the run never reaches: on the sheet of
  a mug row and a blank row, with a click on the stop button while the first row is
  generated, the loop breaks before the blank row, \<open>completed\<close> stays at 1 of 2 and no
  skip message is logged.
\<close>

theorem C5_counterexample:
  "excelData mugThenBlank \<noteq> [] \<and> promptColumn mugThenBlank \<noteq> []
   \<and> filenameColumn mugThenBlank \<noteq> []
   \<and> trim (stringOr ((excelData mugThenBlank ! 1) (promptColumn mugThenBlank)) []) = []
   \<and> completed (status (handleStartBulkGeneration (stopDuring 0) mugThenBlank)) = 1
   \<and> total_rows (status (handleStartBulkGeneration (stopDuring 0) mugThenBlank)) = 2
   \<and> logs (handleStartBulkGeneration (stopDuring 0) mugThenBlank) =
       [js ''Process stopped by user.'', js ''Success: A1'',
        js ''Stopping generation after current item finishes...'',
        js ''Starting bulk generation...'']"
  by (simp add: mugThenBlank_def example_defs run_defs)

text \<open>
  C5, amended: in a started run, for every row that the loop reaches and whose prompt value
  coerces to an empty or white-space-only string, the body of the loop issues no generation
  call and appends no result, \<open>completed\<close> advances from \<open>k\<close> to \<open>k + 1\<close> and the skip
  message with the row number \<open>k + 1\<close> is logged. Over the run, the calls issued are the
  prompts of the reached rows that are not blank, there are no more results than such rows,
  \<open>completed\<close> ends as the number of rows reached, and the handler returns what the loop
  has when it ends.
\<close>

theorem C5_blank_rows_of_a_run:
  assumes "excelData s \<noteq> []" and "promptColumn s \<noteq> []" and "filenameColumn s \<noteq> []"
    and "k < rowsReached env s"
    and "trim (stringOr ((excelData s ! k) (promptColumn s)) []) = []"
  shows "requests (stateAfter env s k) = requests (stateBefore env s k)
    \<and> results (stateAfter env s k) = results (stateBefore env s k)
    \<and> completed (status (stateBefore env s k)) = k
    \<and> completed (status (stateAfter env s k)) = k + 1
    \<and> logs (stateAfter env s k) =
        take 50 ((js ''Skipping row '' @ natToString (k + 1) @ js '': Empty prompt'')
                 # logs (stateBefore env s k))
    \<and> requests (handleStartBulkGeneration env s) =
        requests s @
        map (rowPrompt s)
          (filter (\<lambda>r. \<not> blankPrompt r s) (take (rowsReached env s) (excelData s)))
    \<and> length (results (handleStartBulkGeneration env s)) \<le>
        length (filter (\<lambda>r. \<not> blankPrompt r s) (take (rowsReached env s) (excelData s)))
    \<and> results (handleStartBulkGeneration env s) = results (stateBefore env s (rowsReached env s))
    \<and> requests (handleStartBulkGeneration env s) = requests (stateBefore env s (rowsReached env s))
    \<and> logs (handleStartBulkGeneration env s) =
        (if rowsReached env s < length (excelData s)
         then take 50 (js ''Process stopped by user.'' # logs (stateBefore env s (rowsReached env s)))
         else logs (stateBefore env s (rowsReached env s)))
    \<and> completed (status (handleStartBulkGeneration env s)) = rowsReached env s"
proof -
  note row = row_of_run [OF assms(4)]
  from assms(5) row(2) have blank: "blankPrompt (excelData s ! k) (stateBefore env s k)"
    by (simp add: blankPrompt_def)
  have after: "stateAfter env s k =
      incCompleted (addLog (js ''Skipping row '' @ natToString (k + 1) @ js '': Empty prompt'')
        (stateBefore env s k))"
    unfolding row(1) using blank by (rule processRow_blank)
  have one: "requests (stateAfter env s k) = requests (stateBefore env s k)"
    "results (stateAfter env s k) = results (stateBefore env s k)"
    "completed (status (stateAfter env s k)) = k + 1"
    "logs (stateAfter env s k) =
        take 50 ((js ''Skipping row '' @ natToString (k + 1) @ js '': Empty prompt'')
                 # logs (stateBefore env s k))"
    unfolding after using row(5) by simp_all
  note fin = handler_fields [OF assms(1-3), of env]
  have nb: "(\<lambda>r. \<not> blankPrompt r (startState s)) = (\<lambda>r. \<not> blankPrompt r s)"
    by (rule ext) (simp add: blankPrompt_def)
  have rp: "rowPrompt (startState s) = rowPrompt s"
    by (rule ext) (simp add: rowPrompt_def)
  have calls: "requests (handleStartBulkGeneration env s) =
        requests s @
        map (rowPrompt s)
          (filter (\<lambda>r. \<not> blankPrompt r s) (take (rowsReached env s) (excelData s)))"
    unfolding fin(2) rowsReached_def
    using requests_run [of "startState s" env 0 "excelData s"] by (simp only: nb rp startState_simps)
  have imgs: "length (results (handleStartBulkGeneration env s)) \<le>
        length (filter (\<lambda>r. \<not> blankPrompt r s) (take (rowsReached env s) (excelData s)))"
    unfolding fin(1) rowsReached_def
    using results_run [of "startState s" env 0 "excelData s"] by (simp add: nb del: last.simps)
  note hist = handler_history [OF assms(1-3), of env]
  from one row(5) calls imgs hist show ?thesis
    by blast
qed

text \<open>
  The amended C5 on the end-to-end scenario of the specification: the second of three rows
  is blank, two calls are issued, two files result, and \<open>completed\<close> ends at 3.
\<close>

theorem C5_blank_rows_of_a_run_witness:
  "excelData threeRows \<noteq> [] \<and> promptColumn threeRows \<noteq> [] \<and> filenameColumn threeRows \<noteq> []
   \<and> rowsReached noStops threeRows = 3
   \<and> trim (stringOr ((excelData threeRows ! 1) (promptColumn threeRows)) []) = []
   \<and> requests (stateAfter noStops threeRows 1) = requests (stateBefore noStops threeRows 1)
   \<and> results (stateAfter noStops threeRows 1) = results (stateBefore noStops threeRows 1)
   \<and> completed (status (stateAfter noStops threeRows 1)) = 2
   \<and> requests (handleStartBulkGeneration noStops threeRows) =
       [js ''studio lighting. a mug'', js ''studio lighting. a hat'']
   \<and> map fileName (results (handleStartBulkGeneration noStops threeRows)) = [js ''A1'', js ''B2'']
   \<and> logs (handleStartBulkGeneration noStops threeRows) =
       [js ''Success: B2'', js ''Skipping row 2: Empty prompt'', js ''Success: A1'',
        js ''Starting bulk generation...'']
   \<and> completed (status (handleStartBulkGeneration noStops threeRows)) = 3"
proof -
  have g: "excelData threeRows \<noteq> []" "promptColumn threeRows \<noteq> []"
    "filenameColumn threeRows \<noteq> []"
    by (simp_all add: threeRows_def example_defs js_def)
  have n: "rowsReached noStops threeRows = 3"
    by (simp add: rowsReached_def threeRows_def example_defs noStops_def run_defs)
  then have k: "1 < rowsReached noStops threeRows"
    by simp
  have b: "trim (stringOr ((excelData threeRows ! 1) (promptColumn threeRows)) []) = []"
    by (simp add: threeRows_def example_defs stringOr_def trim_def js_def)
  have r: "map fileName (results (handleStartBulkGeneration noStops threeRows)) = [js ''A1'', js ''B2'']"
    "requests (handleStartBulkGeneration noStops threeRows) =
       [js ''studio lighting. a mug'', js ''studio lighting. a hat'']"
    "logs (handleStartBulkGeneration noStops threeRows) =
       [js ''Success: B2'', js ''Skipping row 2: Empty prompt'', js ''Success: A1'',
        js ''Starting bulk generation...'']"
    by (simp_all add: threeRows_def example_defs noStops_def run_defs natToString.simps)
  note c5 = C5_blank_rows_of_a_run [OF g k b]
  from c5 have "requests (stateAfter noStops threeRows 1) = requests (stateBefore noStops threeRows 1)"
    and "results (stateAfter noStops threeRows 1) = results (stateBefore noStops threeRows 1)"
    and "completed (status (stateAfter noStops threeRows 1)) = 2"
    and "completed (status (handleStartBulkGeneration noStops threeRows)) = 3"
    using n by simp_all
  with g n b r show ?thesis
    by blast
qed



section \<open>The archive\<close>

lemma getProp_plain:
  assumes "\<not> inheritedName k" and "counts earlier usedNames"
  shows "getProp usedNames k =
     (if count_list earlier k = 0 then Undefined else Number (count_list earlier k))"
proof -
  from assms(1) have "k \<noteq> js ''__proto__''" and "map_of objectPrototypeFunctions k = None"
    by (simp_all add: inheritedName_def map_of_eq_None_iff)
  with assms(2) show ?thesis
    by (simp add: getProp_def counts_def)
qed

lemma addToZip_plain:
  assumes "\<not> inheritedName (fileName img)" and "counts earlier usedNames"
  shows "counts (earlier @ [fileName img]) (fst (addToZip (usedNames, files) img))
    \<and> map fst (snd (addToZip (usedNames, files) img)) =
        map fst files @ [occurrenceName earlier (fileName img) @ js ''.png'']"
proof -
  let ?n = "fileName img"
  from assms(1) have np: "?n \<noteq> js ''__proto__''"
    by (simp add: inheritedName_def)
  note gp = getProp_plain [OF assms]
  show ?thesis
  proof (cases "count_list earlier ?n = 0")
    case True
    with gp np assms(2) show ?thesis
      by (simp add: addToZip_def setProp_def occurrenceName_def counts_def Let_def)
  next
    case False
    with gp np assms(2) show ?thesis
      by (simp add: addToZip_def setProp_def getProp_def occurrenceName_def counts_def Let_def)
  qed
qed

lemma foldl_addToZip_plain:
  assumes "\<forall>img \<in> set rs. \<not> inheritedName (fileName img)" and "counts earlier usedNames"
  shows "map fst (snd (foldl addToZip (usedNames, files) rs)) =
     map fst files @ occurrenceNames earlier (map fileName rs)"
  using assms
proof (induction rs arbitrary: earlier usedNames files)
  case Nil
  then show ?case by simp
next
  case (Cons img rs)
  obtain u f where step: "addToZip (usedNames, files) img = (u, f)"
    by (cases "addToZip (usedNames, files) img")
  from Cons.prems have plain: "\<not> inheritedName (fileName img)"
    by simp
  from addToZip_plain [OF plain Cons.prems(2), of files] step
  have inv: "counts (earlier @ [fileName img]) u"
    and out: "map fst f = map fst files @ [occurrenceName earlier (fileName img) @ js ''.png'']"
    by simp_all
  from Cons.prems(1) have "\<forall>img \<in> set rs. \<not> inheritedName (fileName img)"
    by simp
  from Cons.IH [OF this inv, of f] step out show ?case
    by simp
qed

text \<open>
  For file names that are not inherited property names, the exported entries are the
  names given by the collision policy of the specification.
\<close>

lemma plain_names_export:
  assumes "rs \<noteq> []" and "\<forall>img \<in> set rs. \<not> inheritedName (fileName img)"
  shows "map_option (map fst) (downloadAllAsZip rs) = Some (occurrenceNames [] (map fileName rs))"
proof -
  have "counts [] Map.empty"
    by (simp add: counts_def)
  from foldl_addToZip_plain [OF assms(2) this, of "[]"] assms(1) show ?thesis
    by (simp add: downloadAllAsZip_def)
qed

lemmas export_defs =
  downloadAllAsZip_def addToZip_def imageNamed_def getProp_def setProp_def at_def
  objectPrototypeFunctions_def js_def Let_def natToString.simps

text \<open>
  C2: the results named a, a, a are exported as \<open>a.png\<close>, \<open>a_2.png\<close>, \<open>a_3.png\<close>. A
  first occurrence is not always kept as it is, though: a single result named
  \<open>constructor\<close> (a name that sanitization leaves unchanged) is exported as
  \<open>constructor_NaN.png\<close>, because the read \<open>usedNames[fileName]\<close> finds the function
  that the object literal inherits and takes the name for a duplicate.
\<close>

theorem C2_inherited_name:
  "downloadAllAsZip (map imageNamed [js ''a'', js ''a'', js ''a'']) =
     Some [(js ''a.png'', Some (js ''AAAA'')), (js ''a_2.png'', Some (js ''AAAA'')),
           (js ''a_3.png'', Some (js ''AAAA''))]
   \<and> downloadAllAsZip [imageNamed (js ''constructor'')] =
     Some [(js ''constructor_NaN.png'', Some (js ''AAAA''))]
   \<and> sanitize (js ''constructor'') = js ''constructor''"
  by (simp add: export_defs sanitize_def trim_def inClass_def isWhiteSpace_def)

end
